theory Spec2Isabelle
  imports Main "HOL-Library.Word" "HOL-Library.Char_ord" "HOL-Library.List_Lexorder"
    "HOL-Library.Multiset"
begin

section \<open>Value model (values.go)\<close>

text \<open>
  The eleven variants of \<^verbatim>\<open>Value\<close> in values.go. Go strings are byte sequences
  (\<^typ>\<open>string\<close>), \<^verbatim>\<open>int64\<close> is a 64-bit word read with \<^const>\<open>sint\<close>, and
  \<^verbatim>\<open>float64\<close> is kept as its IEEE-754 bit pattern (what \<^verbatim>\<open>math.Float64bits\<close>
  returns). A \<^verbatim>\<open>map[string]Value\<close> is an association list: the order of the list stands
  for the order in which the Go runtime happens to iterate the map, which the language
  leaves unspecified; its keys are pairwise distinct (\<open>wf_value\<close> below). Slices and maps
  are taken to be non-nil.

  \<^verbatim>\<open>time.Time\<close> is a struct of the standard library; it is represented by what its
  accessors \<^verbatim>\<open>Date()\<close>, \<^verbatim>\<open>Clock()\<close>, \<^verbatim>\<open>Nanosecond()\<close> and \<^verbatim>\<open>Zone()\<close> return:
  the wall-clock reading in the value's own location and that location's offset from
  UTC in seconds.
\<close>

type_synonym int64 = "64 word"
type_synonym float64 = "64 word"

record Time =
  year :: int
  month :: nat
  day :: nat
  hour :: nat
  minute :: nat
  second :: nat
  nanosecond :: nat
  zone_offset :: int

datatype Value =
    StringV string
  | LongV int64
  | DoubleV float64
  | BooleanV bool
  | DateV Time
  | TimeV Time
  | RefV string
  | SetRefV "(string \<times> Value) list"
  | ObjectV "(string \<times> Value) list"
  | ArrayV "Value list"
  | NullV

text \<open>Object and Array are the container variants; every other variant is a leaf.\<close>

fun is_container :: "Value \<Rightarrow> bool" where
  "is_container (ObjectV kvs) = True"
| "is_container (ArrayV xs) = True"
| "is_container v = False"

section \<open>IEEE-754 binary64 readings needed by the decoder\<close>

definition f64_sign :: "float64 \<Rightarrow> bool" where
  "f64_sign d = bit d 63"

definition f64_exponent :: "float64 \<Rightarrow> nat" where
  "f64_exponent d = unat (drop_bit 52 d) mod 2048"

definition f64_fraction :: "float64 \<Rightarrow> nat" where
  "f64_fraction d = unat d mod 2 ^ 52"

definition f64_finite :: "float64 \<Rightarrow> bool" where
  "f64_finite d = (f64_exponent d \<noteq> 2047)"

text \<open>
  A finite binary64 denotes \<open>\<plusminus> m * 2 ^ (e - 1075)\<close> with \<open>m\<close> the significand (the implicit
  leading bit added for a normal number) and \<open>e\<close> the biased exponent, 1 for a subnormal.
\<close>

definition f64_significand :: "float64 \<Rightarrow> nat" where
  "f64_significand d =
     (if f64_exponent d = 0 then f64_fraction d else 2 ^ 52 + f64_fraction d)"

definition f64_scale :: "float64 \<Rightarrow> nat" where
  "f64_scale d = max (f64_exponent d) 1"

text \<open>The value has no fractional component: it is finite and an integer.\<close>

definition f64_integral :: "float64 \<Rightarrow> bool" where
  "f64_integral d =
     (f64_finite d \<and>
      (f64_scale d \<ge> 1075 \<or> f64_significand d mod 2 ^ (1075 - f64_scale d) = 0))"

text \<open>The integer a value without fractional component denotes.\<close>

definition f64_to_int :: "float64 \<Rightarrow> int" where
  "f64_to_int d =
     (let m = int (f64_significand d);
          a = (if f64_scale d \<ge> 1075 then m * 2 ^ (f64_scale d - 1075)
               else m div 2 ^ (1075 - f64_scale d))
      in if f64_sign d then - a else a)"

text \<open>
  \<^verbatim>\<open>float64(n)\<close> for an \<^verbatim>\<open>int64\<close>: the nearest binary64, ties to even. \<open>bitlen\<close> is
  the number of binary digits of the magnitude.
\<close>

fun bitlen :: "nat \<Rightarrow> nat" where
  "bitlen n = (if n = 0 then 0 else Suc (bitlen (n div 2)))"

declare bitlen.simps [simp del]

definition f64_of_int64 :: "int64 \<Rightarrow> float64" where
  "f64_of_int64 n =
     (let i = sint n; a = nat \<bar>i\<bar>; b = bitlen a;
          s = (if i < 0 then (2 :: nat) ^ 63 else 0)
      in if a = 0 then 0
         else if b \<le> 53 then
           of_nat (s + (1022 + b) * 2 ^ 52 + (a * 2 ^ (53 - b) - 2 ^ 52))
         else
           let sh = b - 53; q = a div 2 ^ sh; r = a mod 2 ^ sh; half = 2 ^ (sh - 1);
               q' = (if r > half \<or> (r = half \<and> odd q) then q + 1 else q)
           in if q' = 2 ^ 53 then of_nat (s + (1023 + b) * 2 ^ 52)
              else of_nat (s + (1022 + b) * 2 ^ 52 + (q' - 2 ^ 52)))"

section \<open>Decode destinations\<close>

text \<open>
  \<^verbatim>\<open>Get(i interface{})\<close> receives a pointer to a Go variable. The variable is modelled by
  its static type (\<open>shape\<close>) and the value it currently holds (\<open>native\<close>); a call returns
  the error and the variable as the call leaves it.
\<close>

datatype shape =
    GoString
  | GoInt64
  | GoFloat64
  | GoBool
  | GoTime
  | GoValue
  | GoPtr shape
  | GoSlice shape
  | GoMap shape

datatype native =
    NString string
  | NInt int64
  | NFloat float64
  | NBool bool
  | NTime Time
  | NValue "Value option"
  | NPtr "native option"
  | NSlice "native list"
  | NMap "(string \<times> native) list"

record destination =
  shape_of :: shape
  content :: native

text \<open>The zero value of each Go type: what a freshly declared variable holds.\<close>

definition zero_Time :: Time where
  "zero_Time = \<lparr>year = 1, month = 1, day = 1, hour = 0, minute = 0, second = 0,
                 nanosecond = 0, zone_offset = 0\<rparr>"

fun zero :: "shape \<Rightarrow> native" where
  "zero GoString = NString []"
| "zero GoInt64 = NInt 0"
| "zero GoFloat64 = NFloat 0"
| "zero GoBool = NBool False"
| "zero GoTime = NTime zero_Time"
| "zero GoValue = NValue None"
| "zero (GoPtr t) = NPtr None"
| "zero (GoSlice t) = NSlice []"
| "zero (GoMap t) = NMap []"

datatype DecodeError =
    TypeMismatch shape Value
  | PrecisionLoss float64

section \<open>Generic decoder\<close>

text \<open>
  Modelled from the spec: \<^verbatim>\<open>newValueDecoder\<close> with its methods \<^verbatim>\<open>assign\<close>,
  \<^verbatim>\<open>decodeMap\<close> and \<^verbatim>\<open>decodeArray\<close> is called by values.go but is not among the
  source files. \<open>decode\<close> follows the rules of section 4.3 of the specification: a
  directly matching type always succeeds; an Integer widens to a float; a Double
  narrows to an integer only without fractional component, otherwise precision is lost;
  an Object decodes into a mapping entry by entry with the keys copied, an Array into a
  sequence element by element in order, either failing as a whole on the first entry
  that fails; Null decodes into any shape as its zero value; anything else is a type
  mismatch naming the requested shape and the actual variant. The specification names
  no destination for an integral Double beyond 64 bits; the model keeps its low 64
  bits. An optional destination is a pointer (\<open>GoPtr\<close>), and a destination of type
  \<^verbatim>\<open>Value\<close> takes any value as it is.
\<close>

fun sequence :: "('e + 'a) list \<Rightarrow> 'e + 'a list" where
  "sequence [] = Inr []"
| "sequence (Inl e # rs) = Inl e"
| "sequence (Inr x # rs) = (case sequence rs of Inl e \<Rightarrow> Inl e | Inr xs \<Rightarrow> Inr (x # xs))"

fun entry :: "'k \<Rightarrow> 'e + 'a \<Rightarrow> 'e + ('k \<times> 'a)" where
  "entry k (Inl e) = Inl e"
| "entry k (Inr x) = Inr (k, x)"

fun decode :: "Value \<Rightarrow> shape \<Rightarrow> DecodeError + native" where
  "decode NullV t = Inr (zero t)"
| "decode v GoValue = Inr (NValue (Some v))"
| "decode v (GoPtr t) =
     (case decode v t of Inl e \<Rightarrow> Inl e | Inr n \<Rightarrow> Inr (NPtr (Some n)))"
| "decode (StringV s) GoString = Inr (NString s)"
| "decode (LongV n) GoInt64 = Inr (NInt n)"
| "decode (LongV n) GoFloat64 = Inr (NFloat (f64_of_int64 n))"
| "decode (DoubleV d) GoFloat64 = Inr (NFloat d)"
| "decode (DoubleV d) GoInt64 =
     (if f64_integral d then Inr (NInt (word_of_int (f64_to_int d)))
      else Inl (PrecisionLoss d))"
| "decode (BooleanV b) GoBool = Inr (NBool b)"
| "decode (DateV t) GoTime = Inr (NTime t)"
| "decode (TimeV t) GoTime = Inr (NTime t)"
| "decode (ObjectV kvs) (GoMap t) =
     (case sequence (map (\<lambda>kv. entry (fst kv) (decode (snd kv) t)) kvs) of
        Inl e \<Rightarrow> Inl e
      | Inr m \<Rightarrow> Inr (NMap m))"
| "decode (ArrayV xs) (GoSlice t) =
     (case sequence (map (\<lambda>x. decode x t) xs) of
        Inl e \<Rightarrow> Inl e
      | Inr ys \<Rightarrow> Inr (NSlice ys))"
| "decode v t = Inl (TypeMismatch t v)"

text \<open>
  Modelled from the spec: the three entry points of the absent decoder, as the variants
  of values.go call them. Each writes the destination only after the whole value has
  been decoded (section 9: build into a fresh local result and commit it after full
  success).
\<close>

definition commit :: "destination \<Rightarrow> DecodeError + native \<Rightarrow> DecodeError option \<times> destination" where
  "commit i r = (case r of Inl e \<Rightarrow> (Some e, i) | Inr n \<Rightarrow> (None, i\<lparr>content := n\<rparr>))"

definition assign :: "destination \<Rightarrow> Value \<Rightarrow> DecodeError option \<times> destination" where
  "assign i v = commit i (decode v (shape_of i))"

definition decodeMap :: "destination \<Rightarrow> (string \<times> Value) list \<Rightarrow> DecodeError option \<times> destination" where
  "decodeMap i obj = commit i (decode (ObjectV obj) (shape_of i))"

definition decodeArray :: "destination \<Rightarrow> Value list \<Rightarrow> DecodeError option \<times> destination" where
  "decodeArray i arr = commit i (decode (ArrayV arr) (shape_of i))"

text \<open>
  \<^verbatim>\<open>Get\<close>, variant by variant as in values.go: Object and Array go through
  \<^verbatim>\<open>decodeMap\<close> and \<^verbatim>\<open>decodeArray\<close>, Null returns \<^verbatim>\<open>nil\<close> at once and touches
  nothing, every other variant goes through \<^verbatim>\<open>assign\<close>.
\<close>

fun Get :: "Value \<Rightarrow> destination \<Rightarrow> DecodeError option \<times> destination" where
  "Get (ObjectV obj) i = decodeMap i obj"
| "Get (ArrayV arr) i = decodeArray i arr"
| "Get NullV i = (None, i)"
| "Get v i = assign i v"

section \<open>Field paths\<close>

text \<open>
  Modelled from the spec: the type \<^verbatim>\<open>Field\<close>, its method \<^verbatim>\<open>get\<close> and the result type
  \<^verbatim>\<open>FieldValue\<close> are used by values.go and client.go but are not among the source
  files. A field path is built from a first step (\<^verbatim>\<open>ObjKey("resource")\<close> in client.go)
  and extended step by step (\<^verbatim>\<open>ObjKey("emails").AtIndex(0)\<close> in the comment of
  values.go), so it is an ordered, non-empty list of by-key and by-index steps. Applied
  to a value it yields the value reached or a failure: a missing key, an index out of
  range, or "not transversable" when a step meets a variant that is not a container
  (sections 3 and 4.1 of the specification).
\<close>

datatype segment = ByKey string | ByIndex int

datatype Field =
    ObjKey string
  | ArrIndex int
  | AtKey Field string
  | AtIndex Field int

fun segments :: "Field \<Rightarrow> segment list" where
  "segments (ObjKey k) = [ByKey k]"
| "segments (ArrIndex n) = [ByIndex n]"
| "segments (AtKey f k) = segments f @ [ByKey k]"
| "segments (AtIndex f n) = segments f @ [ByIndex n]"

datatype TraversalError =
    NotTransversable
  | KeyNotFound string
  | IndexOutOfRange int

type_synonym FieldValue = "TraversalError + Value"

fun walk :: "segment list \<Rightarrow> Value \<Rightarrow> FieldValue" where
  "walk [] v = Inr v"
| "walk (ByKey k # p) (ObjectV kvs) =
     (case map_of kvs k of None \<Rightarrow> Inl (KeyNotFound k) | Some w \<Rightarrow> walk p w)"
| "walk (ByIndex n # p) (ObjectV kvs) = Inl (IndexOutOfRange n)"
| "walk (ByIndex n # p) (ArrayV xs) =
     (if 0 \<le> n \<and> n < int (length xs) then walk p (xs ! nat n) else Inl (IndexOutOfRange n))"
| "walk (ByKey k # p) (ArrayV xs) = Inl (KeyNotFound k)"
| "walk (s # p) v = Inl NotTransversable"

definition field_get :: "Field \<Rightarrow> Value \<Rightarrow> FieldValue" where
  "field_get field v = walk (segments field) v"

text \<open>
  \<^verbatim>\<open>At\<close> is the same one-liner for all eleven variants in values.go:
  \<^verbatim>\<open>return field.get(v)\<close>.
\<close>

definition At :: "Value \<Rightarrow> Field \<Rightarrow> FieldValue" where
  "At v field = field_get field v"

section \<open>Formatting of numbers and times (strconv, time)\<close>

definition digit_char :: "nat \<Rightarrow> char" where
  "digit_char n = ''0123456789'' ! n"

fun decimal :: "nat \<Rightarrow> string" where
  "decimal n = (if n < 10 then [digit_char n] else decimal (n div 10) @ [digit_char (n mod 10)])"

declare decimal.simps [simp del]

text \<open>\<^verbatim>\<open>strconv.FormatInt(i, 10)\<close>, which \<^verbatim>\<open>encoding/json\<close> uses for an \<^verbatim>\<open>int64\<close>.\<close>

definition FormatInt :: "int \<Rightarrow> string" where
  "FormatInt i = (if i < 0 then CHR ''-'' # decimal (nat (- i)) else decimal (nat i))"

text \<open>
  \<^verbatim>\<open>appendInt(b, x, width)\<close> of package \<^verbatim>\<open>time\<close>: a minus sign for a negative number,
  then the digits of the magnitude, padded with zeros on the left to \<open>width\<close> digits.
\<close>

definition appendInt :: "int \<Rightarrow> nat \<Rightarrow> string" where
  "appendInt x width =
     (let ds = decimal (nat \<bar>x\<bar>)
      in (if x < 0 then ''-'' else []) @ replicate (width - length ds) (CHR ''0'') @ ds)"

text \<open>
  \<^verbatim>\<open>formatNano\<close> of package \<^verbatim>\<open>time\<close> for the layout element \<^verbatim>\<open>.999999999\<close>: the nine
  low decimal digits of the nanoseconds, trailing zeros removed, after a dot; nothing at
  all, not even the dot, when no digit is left.
\<close>

definition nano_digits :: "nat \<Rightarrow> string" where
  "nano_digits n =
     (let ds = decimal (n mod 1000000000) in replicate (9 - length ds) (CHR ''0'') @ ds)"

definition trim_zeros :: "string \<Rightarrow> string" where
  "trim_zeros ds = rev (dropWhile (\<lambda>c. c = CHR ''0'') (rev ds))"

definition formatNano :: "nat \<Rightarrow> string" where
  "formatNano n = (let ds = trim_zeros (nano_digits n) in if ds = [] then [] else CHR ''.'' # ds)"

text \<open>
  \<^verbatim>\<open>Format("2006-01-02")\<close> and \<^verbatim>\<open>Format("2006-01-02T15:04:05.999999999Z")\<close>. In the
  second layout the final \<^verbatim>\<open>Z\<close> is not followed by \<^verbatim>\<open>07\<close>, so it is no zone element
  but a literal letter: the fields printed are those of the value in its own location,
  whatever that location is.
\<close>

definition FormatDate :: "Time \<Rightarrow> string" where
  "FormatDate t =
     appendInt (year t) 4 @ ''-'' @ appendInt (int (month t)) 2 @ ''-'' @ appendInt (int (day t)) 2"

definition FormatClock :: "Time \<Rightarrow> string" where
  "FormatClock t =
     appendInt (int (hour t)) 2 @ '':'' @ appendInt (int (minute t)) 2 @ '':'' @
     appendInt (int (second t)) 2"

definition FormatTimestamp :: "Time \<Rightarrow> string" where
  "FormatTimestamp t = FormatDate t @ ''T'' @ FormatClock t @ formatNano (nanosecond t) @ ''Z''"

section \<open>JSON encoding (encoding/json)\<close>

text \<open>
  \<^verbatim>\<open>json.Marshal\<close> writes a string between double quotes. With HTML escaping on (the
  default of \<^verbatim>\<open>Marshal\<close>) an ASCII byte is copied when it is at least \<open>0x20\<close> and none
  of \<^verbatim>\<open>" \ < > &\<close>; a quote or backslash gets a backslash in front; newline, carriage
  return and tab become \<^verbatim>\<open>\n\<close>, \<^verbatim>\<open>\r\<close>, \<^verbatim>\<open>\t\<close>; every other ASCII byte becomes
  \<^verbatim>\<open>\u00XX\<close> in lower-case hexadecimal. Beyond ASCII, a well-formed UTF-8 sequence is
  copied, except U+2028 and U+2029, which become \<^verbatim>\<open>\u2028\<close> and \<^verbatim>\<open>\u2029\<close>; a
  byte that starts no well-formed sequence becomes \<^verbatim>\<open>\ufffd\<close>. (Later releases of Go
  write backspace and form feed as \<^verbatim>\<open>\b\<close> and \<^verbatim>\<open>\f\<close> instead of \<^verbatim>\<open>\u0008\<close> and
  \<^verbatim>\<open>\u000c\<close>; a JSON parser reads either form as the same character.)
\<close>

definition dquote :: char where
  "dquote = CHR 0x22"

definition backslash :: char where
  "backslash = CHR 0x5C"

definition hex_digit :: "nat \<Rightarrow> char" where
  "hex_digit n = ''0123456789abcdef'' ! n"

definition html_safe :: "char \<Rightarrow> bool" where
  "html_safe c =
     (32 \<le> (of_char c :: nat) \<and> (of_char c :: nat) < 128 \<and> c \<notin> set [dquote, backslash, CHR ''<'', CHR ''>'', CHR ''&''])"

definition escape_byte :: "char \<Rightarrow> string" where
  "escape_byte c =
     (if c = dquote \<or> c = backslash then [backslash, c]
      else if c = CHR 0x0A then [backslash, CHR ''n'']
      else if c = CHR 0x0D then [backslash, CHR ''r'']
      else if c = CHR 0x09 then [backslash, CHR ''t'']
      else [backslash, CHR ''u'', CHR ''0'', CHR ''0'',
            hex_digit (of_char c div 16), hex_digit (of_char c mod 16)])"

text \<open>
  \<^verbatim>\<open>utf8.DecodeRuneInString\<close>, as far as the encoder needs it: the length of the
  well-formed UTF-8 sequence at the head of the string, 0 when there is none.
\<close>

definition continuation :: "char \<Rightarrow> bool" where
  "continuation c = (128 \<le> (of_char c :: nat) \<and> (of_char c :: nat) \<le> 191)"

definition second_ok :: "nat \<Rightarrow> char \<Rightarrow> bool" where
  "second_ok x b =
     ((if x = 0xE0 then 0xA0 else if x = 0xF0 then 0x90 else 0x80) \<le> (of_char b :: nat) \<and>
      (of_char b :: nat) \<le> (if x = 0xED then 0x9F else if x = 0xF4 then 0x8F else 0xBF))"

fun utf8_len :: "string \<Rightarrow> nat" where
  "utf8_len [] = 0"
| "utf8_len (a # s) =
     (let x = of_char a :: nat in
      if x < 0x80 then 1
      else if 0xC2 \<le> x \<and> x \<le> 0xDF then
        (case s of b # _ \<Rightarrow> if continuation b then 2 else 0 | _ \<Rightarrow> 0)
      else if 0xE0 \<le> x \<and> x \<le> 0xEF then
        (case s of b # c # _ \<Rightarrow> if second_ok x b \<and> continuation c then 3 else 0 | _ \<Rightarrow> 0)
      else if 0xF0 \<le> x \<and> x \<le> 0xF4 then
        (case s of b # c # d # _ \<Rightarrow>
           if second_ok x b \<and> continuation c \<and> continuation d then 4 else 0 | _ \<Rightarrow> 0)
      else 0)"

definition line_separator :: string where
  "line_separator = [CHR 0xE2, CHR 0x80, CHR 0xA8]"

definition paragraph_separator :: string where
  "paragraph_separator = [CHR 0xE2, CHR 0x80, CHR 0xA9]"

fun encode_chars :: "string \<Rightarrow> string" where
  "encode_chars [] = []"
| "encode_chars (a # s) =
     (if (of_char a :: nat) < 128 then
        (if html_safe a then [a] else escape_byte a) @ encode_chars s
      else if utf8_len (a # s) = 0 then
        backslash # ''ufffd'' @ encode_chars s
      else if take 3 (a # s) = line_separator then
        backslash # ''u2028'' @ encode_chars (drop 2 s)
      else if take 3 (a # s) = paragraph_separator then
        backslash # ''u2029'' @ encode_chars (drop 2 s)
      else take (utf8_len (a # s)) (a # s) @ encode_chars (drop (utf8_len (a # s) - 1) s))"

definition encode_string :: "string \<Rightarrow> string" where
  "encode_string s = dquote # encode_chars s @ [dquote]"

fun join_comma :: "string list \<Rightarrow> string" where
  "join_comma [] = []"
| "join_comma [x] = x"
| "join_comma (x # y # r) = x @ '','' @ join_comma (y # r)"

definition encode_array :: "string list \<Rightarrow> string" where
  "encode_array rs = ''['' @ join_comma rs @ '']''"

text \<open>An object from its members, each a key and the encoding of its value, in the order given.\<close>

definition encode_member :: "string \<times> string \<Rightarrow> string" where
  "encode_member m = encode_string (fst m) @ '':'' @ snd m"

definition encode_object :: "(string \<times> string) list \<Rightarrow> string" where
  "encode_object ms = ''{'' @ join_comma (map encode_member ms) @ ''}''"

text \<open>
  The only failure of \<^verbatim>\<open>json.Marshal\<close> on these types: a \<^verbatim>\<open>float64\<close> that is NaN or
  infinite (\<^verbatim>\<open>UnsupportedValueError\<close>).
\<close>

datatype MarshalError = UnsupportedValue float64

text \<open>
  A Go map is encoded with its keys in sorted order (\<^verbatim>\<open>encoding/json\<close> sorts the key
  strings, which Go compares byte by byte); the first value that fails, in that order,
  fails the whole map.
\<close>

definition encode_map :: "(string \<times> (MarshalError + string)) list \<Rightarrow> MarshalError + string" where
  "encode_map rs =
     (case sequence (map (\<lambda>kr. entry (fst kr) (snd kr)) (sort_key fst rs)) of
        Inl e \<Rightarrow> Inl e
      | Inr ms \<Rightarrow> Inr (encode_object ms))"

text \<open>
  \<^verbatim>\<open>escape(key, value)\<close> of values.go is \<^verbatim>\<open>json.Marshal(map[string]interface{}{key: value})\<close>:
  the object with the single member \<open>key\<close>. The model takes the encoding of the value.
\<close>

definition escape :: "string \<Rightarrow> MarshalError + string \<Rightarrow> MarshalError + string" where
  "escape key r = encode_map [(key, r)]"

text \<open>
  \<^verbatim>\<open>json.Marshal\<close> at a \<^verbatim>\<open>Value\<close>. StringV, LongV, DoubleV, BooleanV and ArrayV have no
  method \<^verbatim>\<open>MarshalJSON\<close> and are encoded by their kind (string, integer, float, boolean,
  slice); the other variants are encoded by their \<^verbatim>\<open>MarshalJSON\<close> of values.go. The
  digits \<^verbatim>\<open>strconv\<close> writes for a finite float are not modelled: \<open>ff\<close> stands for that
  function.
\<close>

fun Marshal :: "(float64 \<Rightarrow> string) \<Rightarrow> Value \<Rightarrow> MarshalError + string" where
  "Marshal ff (StringV str) = Inr (encode_string str)"
| "Marshal ff (LongV num) = Inr (FormatInt (sint num))"
| "Marshal ff (DoubleV num) = (if f64_finite num then Inr (ff num) else Inl (UnsupportedValue num))"
| "Marshal ff (BooleanV boolean) = Inr (if boolean then ''true'' else ''false'')"
| "Marshal ff (DateV date) = escape ''@date'' (Inr (encode_string (FormatDate date)))"
| "Marshal ff (TimeV localTime) = escape ''@ts'' (Inr (encode_string (FormatTimestamp localTime)))"
| "Marshal ff (RefV ident) = escape ''@ref'' (Inr (encode_string ident))"
| "Marshal ff (SetRefV parameters) =
     escape ''@set'' (encode_map (map (\<lambda>kv. (fst kv, Marshal ff (snd kv))) parameters))"
| "Marshal ff (ObjectV obj) =
     escape ''object'' (encode_map (map (\<lambda>kv. (fst kv, Marshal ff (snd kv))) obj))"
| "Marshal ff (ArrayV arr) =
     (case sequence (map (Marshal ff) arr) of
        Inl e \<Rightarrow> Inl e
      | Inr rs \<Rightarrow> Inr (encode_array rs))"
| "Marshal ff NullV = Inr ''null''"

section \<open>Equality of values\<close>

text \<open>
  Every map of a well-formed value has pairwise distinct keys, as a Go map has.
\<close>

fun wf_value :: "Value \<Rightarrow> bool" where
  "wf_value (SetRefV ps) = (distinct (map fst ps) \<and> (\<forall>kv\<in>set ps. wf_value (snd kv)))"
| "wf_value (ObjectV kvs) = (distinct (map fst kvs) \<and> (\<forall>kv\<in>set kvs. wf_value (snd kv)))"
| "wf_value (ArrayV xs) = (\<forall>x\<in>set xs. wf_value x)"
| "wf_value v = True"

text \<open>
  Structural equality, as \<^verbatim>\<open>reflect.DeepEqual\<close> decides it: two maps are equal when they
  have the same number of entries and every key of the first is a key of the second
  with an equal value; two slices are equal when they are equal element by element.
\<close>

fun DeepEqual :: "Value \<Rightarrow> Value \<Rightarrow> bool" where
  "DeepEqual (SetRefV a) (SetRefV b) =
     (length a = length b \<and>
      (\<forall>kv\<in>set a. case map_of b (fst kv) of None \<Rightarrow> False | Some y \<Rightarrow> DeepEqual (snd kv) y))"
| "DeepEqual (ObjectV a) (ObjectV b) =
     (length a = length b \<and>
      (\<forall>kv\<in>set a. case map_of b (fst kv) of None \<Rightarrow> False | Some y \<Rightarrow> DeepEqual (snd kv) y))"
| "DeepEqual (ArrayV a) (ArrayV b) = list_all2 DeepEqual a b"
| "DeepEqual v w = (v = w)"

section \<open>Reading the wire format\<close>

text \<open>
  Modelled from the spec: \<^verbatim>\<open>parseJSON\<close> is called by client.go but is not among the
  source files. Section 4.2 of the specification describes it in two stages: the raw
  document is parsed into an intermediate generic form (\<open>json\<close> and \<open>json_parse\<close> here,
  the JSON grammar of RFC 8259), then each node is classified by its shape (\<open>toValue\<close>).
  A number is kept as its literal in the generic form, and an object keeps one entry
  per key, the last one written.
\<close>

datatype json =
    JNull
  | JBool bool
  | JNumber string
  | JString string
  | JArray "json list"
  | JObject "(string \<times> json) list"

datatype WireFormatError = MalformedJSON | BadTagPayload string | NumberOutOfRange string

subsection \<open>Characters and digits\<close>

definition is_ws :: "char \<Rightarrow> bool" where
  "is_ws c = (c \<in> set [CHR '' '', CHR 0x09, CHR 0x0A, CHR 0x0D])"

definition skip_ws :: "string \<Rightarrow> string" where
  "skip_ws s = dropWhile is_ws s"

definition is_digit :: "char \<Rightarrow> bool" where
  "is_digit c = (48 \<le> (of_char c :: nat) \<and> (of_char c :: nat) \<le> 57)"

definition digit_val :: "char \<Rightarrow> nat" where
  "digit_val c = of_char c - 48"

definition digits_val :: "string \<Rightarrow> nat" where
  "digits_val ds = foldl (\<lambda>a c. 10 * a + digit_val c) 0 ds"

definition hex_val :: "char \<Rightarrow> nat option" where
  "hex_val c =
     (let x = of_char c :: nat in
      if 48 \<le> x \<and> x \<le> 57 then Some (x - 48)
      else if 97 \<le> x \<and> x \<le> 102 then Some (x - 87)
      else if 65 \<le> x \<and> x \<le> 70 then Some (x - 55)
      else None)"

definition hex4 :: "string \<Rightarrow> nat option" where
  "hex4 s =
     (case map hex_val s of
        [Some a, Some b, Some c, Some d] \<Rightarrow> Some (((a * 16 + b) * 16 + c) * 16 + d)
      | _ \<Rightarrow> None)"

text \<open>The UTF-8 encoding of a code point.\<close>

definition utf8_encode :: "nat \<Rightarrow> string" where
  "utf8_encode n =
     (if n < 0x80 then [char_of n]
      else if n < 0x800 then [char_of (0xC0 + n div 64), char_of (0x80 + n mod 64)]
      else if n < 0x10000 then
        [char_of (0xE0 + n div 4096), char_of (0x80 + n div 64 mod 64), char_of (0x80 + n mod 64)]
      else
        [char_of (0xF0 + n div 262144), char_of (0x80 + n div 4096 mod 64),
         char_of (0x80 + n div 64 mod 64), char_of (0x80 + n mod 64)])"

definition replacement :: string where
  "replacement = [CHR 0xEF, CHR 0xBF, CHR 0xBD]"

subsection \<open>Strings\<close>

definition unescape :: "char \<Rightarrow> char option" where
  "unescape e =
     (if e = dquote \<or> e = backslash \<or> e = CHR ''/'' then Some e
      else if e = CHR ''b'' then Some (CHR 0x08)
      else if e = CHR ''f'' then Some (CHR 0x0C)
      else if e = CHR ''n'' then Some (CHR 0x0A)
      else if e = CHR ''r'' then Some (CHR 0x0D)
      else if e = CHR ''t'' then Some (CHR 0x09)
      else None)"

text \<open>
  After a \<^verbatim>\<open>\uXXXX\<close> escape that is a high surrogate: the low surrogate that follows
  it as a second escape, if there is one.
\<close>

definition low_surrogate :: "string \<Rightarrow> (nat \<times> string) option" where
  "low_surrogate s =
     (if take 2 s = [backslash, CHR ''u''] \<and> length s \<ge> 6 then
        (case hex4 (take 4 (drop 2 s)) of
           None \<Rightarrow> None
         | Some m \<Rightarrow> if 0xDC00 \<le> m \<and> m < 0xE000 then Some (m, drop 6 s) else None)
      else None)"

definition cons_result :: "string \<Rightarrow> (string \<times> string) option \<Rightarrow> (string \<times> string) option" where
  "cons_result p r = (case r of None \<Rightarrow> None | Some (s, q) \<Rightarrow> Some (p @ s, q))"

text \<open>
  The characters of a string after its opening quote, up to and including the closing
  quote: the string read and the input that follows.
\<close>

function parse_chars :: "string \<Rightarrow> (string \<times> string) option" where
  "parse_chars [] = None"
| "parse_chars (c # cs) =
     (if c = dquote then Some ([], cs)
      else if c = backslash then
        (case cs of
           [] \<Rightarrow> None
         | e # r \<Rightarrow>
             if e = CHR ''u'' then
               (case hex4 (take 4 r) of
                  None \<Rightarrow> None
                | Some n \<Rightarrow>
                    if 0xD800 \<le> n \<and> n < 0xDC00 then
                      (case low_surrogate (drop 4 r) of
                         None \<Rightarrow> cons_result replacement (parse_chars (drop 4 r))
                       | Some (m, q) \<Rightarrow>
                           cons_result
                             (utf8_encode (0x10000 + (n - 0xD800) * 0x400 + (m - 0xDC00)))
                             (parse_chars q))
                    else if 0xDC00 \<le> n \<and> n < 0xE000 then
                      cons_result replacement (parse_chars (drop 4 r))
                    else cons_result (utf8_encode n) (parse_chars (drop 4 r)))
             else
               (case unescape e of
                  None \<Rightarrow> None
                | Some x \<Rightarrow> cons_result [x] (parse_chars r)))
      else if (of_char c :: nat) < 32 then None
      else cons_result [c] (parse_chars cs))"
  by pat_completeness auto
termination
  by (relation "measure length")
    (auto simp: low_surrogate_def split: if_splits option.splits)

declare parse_chars.simps [simp del]

subsection \<open>Numbers\<close>

text \<open>
  A number literal: an optional minus sign, an integer part without superfluous leading
  zero, an optional fraction, an optional exponent. The literal and the rest of the
  input.
\<close>

definition parse_fraction :: "string \<Rightarrow> (string \<times> string) option" where
  "parse_fraction s =
     (case s of
        [] \<Rightarrow> Some ([], s)
      | c # r \<Rightarrow>
          if c = CHR ''.'' then
            (if takeWhile is_digit r = [] then None
             else Some (c # takeWhile is_digit r, dropWhile is_digit r))
          else Some ([], s))"

definition parse_exponent :: "string \<Rightarrow> (string \<times> string) option" where
  "parse_exponent s =
     (case s of
        [] \<Rightarrow> Some ([], s)
      | c # r \<Rightarrow>
          if c = CHR ''e'' \<or> c = CHR ''E'' then
            (let sign = takeWhile (\<lambda>x. x = CHR ''+'' \<or> x = CHR ''-'') (take 1 r);
                 r' = drop (length sign) r
             in if takeWhile is_digit r' = [] then None
                else Some (c # sign @ takeWhile is_digit r', dropWhile is_digit r'))
          else Some ([], s))"

definition parse_number :: "string \<Rightarrow> (string \<times> string) option" where
  "parse_number s =
     (let sign = takeWhile (\<lambda>x. x = CHR ''-'') (take 1 s);
          s1 = drop (length sign) s;
          ds = takeWhile is_digit s1
      in if ds = [] \<or> (length ds > 1 \<and> hd ds = CHR ''0'') then None
         else case parse_fraction (dropWhile is_digit s1) of
                None \<Rightarrow> None
              | Some (fr, s2) \<Rightarrow>
                  (case parse_exponent s2 of
                     None \<Rightarrow> None
                   | Some (ex, s3) \<Rightarrow> Some (sign @ ds @ fr @ ex, s3)))"

subsection \<open>Documents\<close>

definition expect :: "char \<Rightarrow> string \<Rightarrow> string option" where
  "expect c s = (case s of [] \<Rightarrow> None | x # r \<Rightarrow> if x = c then Some r else None)"

definition expect_word :: "string \<Rightarrow> string \<Rightarrow> string option" where
  "expect_word w s = (if take (length w) s = w then Some (drop (length w) s) else None)"

text \<open>An object keeps one entry per key: the last one in the document.\<close>

fun last_wins :: "(string \<times> 'a) list \<Rightarrow> (string \<times> 'a) list" where
  "last_wins [] = []"
| "last_wins (kv # r) = (if fst kv \<in> fst ` set r then last_wins r else kv # last_wins r)"

text \<open>
  Recursive descent. The first argument bounds the calls still to be made, which makes
  the recursion structural; every call but the first follows at least one character
  read, and \<open>json_parse\<close> starts at twice the length of the document plus two.
\<close>

fun parse_value :: "nat \<Rightarrow> string \<Rightarrow> (json \<times> string) option"
  and parse_elements :: "nat \<Rightarrow> string \<Rightarrow> (json list \<times> string) option"
  and parse_members :: "nat \<Rightarrow> string \<Rightarrow> ((string \<times> json) list \<times> string) option"
where
  "parse_value 0 s = None"
| "parse_value (Suc n) s =
     (case skip_ws s of
        [] \<Rightarrow> None
      | c # r \<Rightarrow>
          if c = CHR ''{'' then
            (case expect (CHR ''}'') (skip_ws r) of
               Some q \<Rightarrow> Some (JObject [], q)
             | None \<Rightarrow>
                 (case parse_members n r of
                    None \<Rightarrow> None
                  | Some (ms, q) \<Rightarrow> Some (JObject (last_wins ms), q)))
          else if c = CHR ''['' then
            (case expect (CHR '']'') (skip_ws r) of
               Some q \<Rightarrow> Some (JArray [], q)
             | None \<Rightarrow>
                 (case parse_elements n r of
                    None \<Rightarrow> None
                  | Some (vs, q) \<Rightarrow> Some (JArray vs, q)))
          else if c = dquote then
            (case parse_chars r of None \<Rightarrow> None | Some (str, q) \<Rightarrow> Some (JString str, q))
          else if c = CHR ''t'' then
            (case expect_word ''rue'' r of None \<Rightarrow> None | Some q \<Rightarrow> Some (JBool True, q))
          else if c = CHR ''f'' then
            (case expect_word ''alse'' r of None \<Rightarrow> None | Some q \<Rightarrow> Some (JBool False, q))
          else if c = CHR ''n'' then
            (case expect_word ''ull'' r of None \<Rightarrow> None | Some q \<Rightarrow> Some (JNull, q))
          else
            (case parse_number (c # r) of None \<Rightarrow> None | Some (lit, q) \<Rightarrow> Some (JNumber lit, q)))"
| "parse_elements 0 s = None"
| "parse_elements (Suc n) s =
     (case parse_value n s of
        None \<Rightarrow> None
      | Some (v, r) \<Rightarrow>
          (case skip_ws r of
             [] \<Rightarrow> None
           | c # q \<Rightarrow>
               if c = CHR '','' then
                 (case parse_elements n q of None \<Rightarrow> None | Some (vs, q') \<Rightarrow> Some (v # vs, q'))
               else if c = CHR '']'' then Some ([v], q)
               else None))"
| "parse_members 0 s = None"
| "parse_members (Suc n) s =
     (case expect dquote (skip_ws s) of
        None \<Rightarrow> None
      | Some r \<Rightarrow>
          (case parse_chars r of
             None \<Rightarrow> None
           | Some (k, r1) \<Rightarrow>
               (case expect (CHR '':'') (skip_ws r1) of
                  None \<Rightarrow> None
                | Some r2 \<Rightarrow>
                    (case parse_value n r2 of
                       None \<Rightarrow> None
                     | Some (v, r3) \<Rightarrow>
                         (case skip_ws r3 of
                            [] \<Rightarrow> None
                          | c # q \<Rightarrow>
                              if c = CHR '','' then
                                (case parse_members n q of
                                   None \<Rightarrow> None
                                 | Some (ms, q') \<Rightarrow> Some ((k, v) # ms, q'))
                              else if c = CHR ''}'' then Some ([(k, v)], q)
                              else None)))))"

definition json_parse :: "string \<Rightarrow> json option" where
  "json_parse s =
     (case parse_value (2 * length s + 2) s of
        None \<Rightarrow> None
      | Some (j, r) \<Rightarrow> if skip_ws r = [] then Some j else None)"

subsection \<open>Dates and times on the wire\<close>

definition leap_year :: "int \<Rightarrow> bool" where
  "leap_year y = (y mod 4 = 0 \<and> (y mod 100 \<noteq> 0 \<or> y mod 400 = 0))"

definition days_in :: "int \<Rightarrow> nat \<Rightarrow> nat" where
  "days_in y m =
     (if m = 2 then (if leap_year y then 29 else 28)
      else if m \<in> set [4, 6, 9, 11] then 30
      else 31)"

definition valid_date :: "Time \<Rightarrow> bool" where
  "valid_date t =
     (1 \<le> month t \<and> month t \<le> 12 \<and> 1 \<le> day t \<and> day t \<le> days_in (year t) (month t))"

definition valid_clock :: "Time \<Rightarrow> bool" where
  "valid_clock t =
     (hour t < 24 \<and> minute t < 60 \<and> second t < 60 \<and> nanosecond t < 1000000000)"

definition all_digits :: "string \<Rightarrow> bool" where
  "all_digits s = (\<forall>c\<in>set s. is_digit c)"

text \<open>\<^verbatim>\<open>YYYY-MM-DD\<close>, a day of the calendar; the Date is that day at midnight UTC.\<close>

definition parse_date :: "string \<Rightarrow> Time option" where
  "parse_date s =
     (if length s = 10 \<and> all_digits (take 4 s) \<and> s ! 4 = CHR ''-'' \<and>
         all_digits (take 2 (drop 5 s)) \<and> s ! 7 = CHR ''-'' \<and> all_digits (take 2 (drop 8 s))
      then
        let t = \<lparr>year = int (digits_val (take 4 s)), month = digits_val (take 2 (drop 5 s)),
                 day = digits_val (take 2 (drop 8 s)), hour = 0, minute = 0, second = 0,
                 nanosecond = 0, zone_offset = 0\<rparr>
        in if valid_date t then Some t else None
      else None)"

text \<open>
  The fraction of a second between the seconds and the final \<^verbatim>\<open>Z\<close>: nothing, or a dot
  and one to nine digits.
\<close>

definition parse_nanos :: "string \<Rightarrow> nat option" where
  "parse_nanos f =
     (case f of
        [] \<Rightarrow> Some 0
      | c # ds \<Rightarrow>
          if c = CHR ''.'' \<and> ds \<noteq> [] \<and> length ds \<le> 9 \<and> all_digits ds
          then Some (digits_val ds * 10 ^ (9 - length ds))
          else None)"

text \<open>
  \<^verbatim>\<open>YYYY-MM-DDTHH:MM:SS\<close>, an optional fraction and \<^verbatim>\<open>Z\<close>: the layout the encoder
  writes (section 4.2: decoding is the inverse of encoding), read as a time in UTC.
\<close>

definition parse_timestamp :: "string \<Rightarrow> Time option" where
  "parse_timestamp s =
     (if length s \<ge> 20 \<and> s ! 10 = CHR ''T'' \<and> all_digits (take 2 (drop 11 s)) \<and>
         s ! 13 = CHR '':'' \<and> all_digits (take 2 (drop 14 s)) \<and> s ! 16 = CHR '':'' \<and>
         all_digits (take 2 (drop 17 s)) \<and> last s = CHR ''Z''
      then
        (case (parse_date (take 10 s), parse_nanos (butlast (drop 19 s))) of
           (Some d, Some ns) \<Rightarrow>
             let t = d\<lparr>hour := digits_val (take 2 (drop 11 s)),
                       minute := digits_val (take 2 (drop 14 s)),
                       second := digits_val (take 2 (drop 17 s)), nanosecond := ns\<rparr>
             in if valid_clock t then Some t else None
         | _ \<Rightarrow> None)
      else None)"

subsection \<open>Classification\<close>

text \<open>
  A number literal without fraction and exponent is an Integer and must fit 64 bits;
  any other literal is a Double. Reading a float literal is not modelled: \<open>pf\<close> stands
  for that function (\<^verbatim>\<open>strconv.ParseFloat\<close>).
\<close>

definition int_literal :: "string \<Rightarrow> bool" where
  "int_literal lit = (\<forall>c\<in>set lit. is_digit c \<or> c = CHR ''-'')"

definition literal_int :: "string \<Rightarrow> int" where
  "literal_int lit =
     (if take 1 lit = ''-'' then - int (digits_val (drop 1 lit)) else int (digits_val lit))"

definition toNumber :: "(string \<Rightarrow> float64 option) \<Rightarrow> string \<Rightarrow> WireFormatError + Value" where
  "toNumber pf lit =
     (if int_literal lit then
        (if - (2 ^ 63) \<le> literal_int lit \<and> literal_int lit < 2 ^ 63
         then Inr (LongV (word_of_int (literal_int lit)))
         else Inl (NumberOutOfRange lit))
      else case pf lit of None \<Rightarrow> Inl (NumberOutOfRange lit) | Some d \<Rightarrow> Inr (DoubleV d))"

text \<open>
  A single-key object whose key is a reserved tag becomes the typed variant, and fails
  when the payload is not of the tag's format; a single-key object whose key is
  \<^verbatim>\<open>object\<close> and whose payload is an object becomes the Object of the payload's entries;
  any other object becomes an Object directly (the permissive read path).
\<close>

fun toValue :: "(string \<Rightarrow> float64 option) \<Rightarrow> json \<Rightarrow> WireFormatError + Value"
  and toEntries :: "(string \<Rightarrow> float64 option) \<Rightarrow> (string \<times> json) list \<Rightarrow>
        WireFormatError + (string \<times> Value) list"
  and toValues :: "(string \<Rightarrow> float64 option) \<Rightarrow> json list \<Rightarrow> WireFormatError + Value list"
where
  "toValue pf JNull = Inr NullV"
| "toValue pf (JBool b) = Inr (BooleanV b)"
| "toValue pf (JNumber lit) = toNumber pf lit"
| "toValue pf (JString s) = Inr (StringV s)"
| "toValue pf (JArray js) =
     (case toValues pf js of Inl e \<Rightarrow> Inl e | Inr vs \<Rightarrow> Inr (ArrayV vs))"
| "toValue pf (JObject [(k, j)]) =
     (if k = ''@ref'' then
        (case j of JString s \<Rightarrow> Inr (RefV s) | _ \<Rightarrow> Inl (BadTagPayload k))
      else if k = ''@set'' then
        (case j of
           JObject ps \<Rightarrow>
             (case toEntries pf ps of Inl e \<Rightarrow> Inl e | Inr vs \<Rightarrow> Inr (SetRefV vs))
         | _ \<Rightarrow> Inl (BadTagPayload k))
      else if k = ''@date'' then
        (case j of
           JString s \<Rightarrow>
             (case parse_date s of None \<Rightarrow> Inl (BadTagPayload k) | Some t \<Rightarrow> Inr (DateV t))
         | _ \<Rightarrow> Inl (BadTagPayload k))
      else if k = ''@ts'' then
        (case j of
           JString s \<Rightarrow>
             (case parse_timestamp s of None \<Rightarrow> Inl (BadTagPayload k) | Some t \<Rightarrow> Inr (TimeV t))
         | _ \<Rightarrow> Inl (BadTagPayload k))
      else if k = ''object'' then
        (case j of
           JObject ms \<Rightarrow>
             (case toEntries pf ms of Inl e \<Rightarrow> Inl e | Inr vs \<Rightarrow> Inr (ObjectV vs))
         | _ \<Rightarrow>
             (case toValue pf j of Inl e \<Rightarrow> Inl e | Inr v \<Rightarrow> Inr (ObjectV [(k, v)])))
      else
        (case toValue pf j of Inl e \<Rightarrow> Inl e | Inr v \<Rightarrow> Inr (ObjectV [(k, v)])))"
| "toValue pf (JObject ms) =
     (case toEntries pf ms of Inl e \<Rightarrow> Inl e | Inr vs \<Rightarrow> Inr (ObjectV vs))"
| "toEntries pf [] = Inr []"
| "toEntries pf ((k, j) # ms) =
     (case toValue pf j of
        Inl e \<Rightarrow> Inl e
      | Inr v \<Rightarrow> (case toEntries pf ms of Inl e \<Rightarrow> Inl e | Inr vs \<Rightarrow> Inr ((k, v) # vs)))"
| "toValues pf [] = Inr []"
| "toValues pf (j # js) =
     (case toValue pf j of
        Inl e \<Rightarrow> Inl e
      | Inr v \<Rightarrow> (case toValues pf js of Inl e \<Rightarrow> Inl e | Inr vs \<Rightarrow> Inr (v # vs)))"

definition parseJSON :: "(string \<Rightarrow> float64 option) \<Rightarrow> string \<Rightarrow> WireFormatError + Value" where
  "parseJSON pf body =
     (case json_parse body of None \<Rightarrow> Inl MalformedJSON | Some j \<Rightarrow> toValue pf j)"

section \<open>Client (client.go)\<close>

text \<open>
  What a query can fail with: the request could not be built or sent, the server
  answered with an error, the body is not a well-formed document, or the path into the
  document did not resolve.
\<close>

datatype error =
    MarshalFailed MarshalError
  | TransportFailed string
  | ResponseFailed nat
  | WireFailed WireFormatError
  | PathFailed TraversalError

text \<open>Of an \<^verbatim>\<open>http.Response\<close> the client reads the status and the body.\<close>

record Response =
  status :: nat
  body :: string

text \<open>
  Modelled from the spec: \<^verbatim>\<open>GetValue\<close> of \<^verbatim>\<open>FieldValue\<close> is not among the source
  files. It returns the value the path resolved to, or the failure of the path
  (section 4.3).
\<close>

definition GetValue :: "FieldValue \<Rightarrow> error + Value" where
  "GetValue fv = (case fv of Inl e \<Rightarrow> Inl (PathFailed e) | Inr v \<Rightarrow> Inr v)"

definition resource :: Field where
  "resource = ObjKey ''resource''"

definition parseResponse :: "(string \<Rightarrow> float64 option) \<Rightarrow> Response \<Rightarrow> error + Value" where
  "parseResponse pf response =
     (case parseJSON pf (body response) of
        Inl err \<Rightarrow> Inl (WireFailed err)
      | Inr v \<Rightarrow> GetValue (At v resource))"

text \<open>
  \<^verbatim>\<open>prepareRequest\<close> encodes the expression into the body of the request, and
  \<^verbatim>\<open>performRequest\<close> posts it. The transport (\<^verbatim>\<open>http.NewRequest\<close> with the
  endpoint and the two headers, then \<^verbatim>\<open>http.Client.Do\<close>) is the parameter \<open>send\<close>,
  from the request body to the response or the transport's error. The expression is a
  \<open>Value\<close>: every variant is an \<^verbatim>\<open>Expr\<close>.
\<close>

definition prepareRequest :: "(float64 \<Rightarrow> string) \<Rightarrow> Value \<Rightarrow> error + string" where
  "prepareRequest ff expr =
     (case Marshal ff expr of Inl err \<Rightarrow> Inl (MarshalFailed err) | Inr bytes \<Rightarrow> Inr bytes)"

definition performRequest ::
  "(float64 \<Rightarrow> string) \<Rightarrow> (string \<Rightarrow> error + Response) \<Rightarrow> Value \<Rightarrow> error + Response" where
  "performRequest ff send expr =
     (case prepareRequest ff expr of Inl err \<Rightarrow> Inl err | Inr request \<Rightarrow> send request)"

text \<open>
  \<^verbatim>\<open>Query\<close>. \<^verbatim>\<open>checkForResponseErrors\<close> is not among the source files and is the
  parameter \<open>check\<close>: the error the response's status stands for, if any.
\<close>

definition Query ::
  "(float64 \<Rightarrow> string) \<Rightarrow> (string \<Rightarrow> float64 option) \<Rightarrow> (string \<Rightarrow> error + Response) \<Rightarrow>
   (Response \<Rightarrow> error option) \<Rightarrow> Value \<Rightarrow> error + Value" where
  "Query ff pf send check expr =
     (case performRequest ff send expr of
        Inl err \<Rightarrow> Inl err
      | Inr response \<Rightarrow>
          (case check response of
             Some err \<Rightarrow> Inl err
           | None \<Rightarrow> parseResponse pf response))"

section \<open>Values that the wire format represents exactly\<close>

text \<open>
  A string is well-formed UTF-8 when the encoder never meets a byte that starts no
  well-formed sequence.
\<close>

fun valid_utf8 :: "string \<Rightarrow> bool" where
  "valid_utf8 [] = True"
| "valid_utf8 (a # s) =
     (if (of_char a :: nat) < 128 then valid_utf8 s
      else utf8_len (a # s) \<noteq> 0 \<and> valid_utf8 (drop (utf8_len (a # s) - 1) s))"






text \<open>
  What the proofs below need to say about documents: the input that may follow a value
  (nothing, or a comma or closing bracket), the documents whose strings are well-formed
  and whose numbers are literals, the characters a document can start with, and the
  bytes of the elements of an array and of the members of an object.
\<close>

definition delimited :: "string \<Rightarrow> bool" where
  "delimited rest = (rest = [] \<or> hd rest \<in> set [CHR '','', CHR '']'', CHR ''}''])"





section \<open>Properties of the decoder\<close>

subsection \<open>Null\<close>

text \<open>
  C9. Decoding a Null value returns success and leaves the destination exactly as it
  was: whatever the destination held before the call, it holds after it.
\<close>

theorem NullV_Get_frame: "Get NullV i = (None, i)"
  by simp

text \<open>
  C3, as amended. For every destination, decoding a Null value into it succeeds and
  leaves the destination as it was; a destination that was at its zero state before the
  call is at its zero state after it.
\<close>

theorem NullV_Get_succeeds:
  "fst (Get NullV i) = None \<and> snd (Get NullV i) = i \<and>
   (content i = zero (shape_of i) \<longrightarrow>
      content (snd (Get NullV i)) = zero (shape_of (snd (Get NullV i))))"
  by simp

theorem NullV_Get_succeeds_witness:
  "content \<lparr>shape_of = GoSlice GoString, content = NSlice []\<rparr> = zero (GoSlice GoString) \<and>
   Get NullV \<lparr>shape_of = GoSlice GoString, content = NSlice []\<rparr> =
     (None, \<lparr>shape_of = GoSlice GoString, content = NSlice []\<rparr>)"
  using NullV_Get_succeeds [of "\<lparr>shape_of = GoSlice GoString, content = NSlice []\<rparr>"]
  by simp

text \<open>
  C3 as stated fails on a destination that already holds something: a string variable
  holding \<open>abc\<close> still holds \<open>abc\<close> after Null has been decoded into it, which is not the
  zero value of a string.
\<close>

theorem NullV_Get_not_reset:
  "fst (Get NullV \<lparr>shape_of = GoString, content = NString ''abc''\<rparr>) = None \<and>
   content (snd (Get NullV \<lparr>shape_of = GoString, content = NString ''abc''\<rparr>)) \<noteq> zero GoString"
  by simp

subsection \<open>Failure leaves the destination alone\<close>

lemma commit_fail: "fst (commit i r) \<noteq> None \<Longrightarrow> snd (commit i r) = i"
  by (cases r) (simp_all add: commit_def)

lemma Get_fail_frame: "fst (Get v i) \<noteq> None \<Longrightarrow> snd (Get v i) = i"
  by (cases v) (simp_all add: assign_def decodeMap_def decodeArray_def commit_fail)

subsection \<open>Numbers\<close>

lemmas f64_defs = f64_integral_def f64_finite_def f64_exponent_def f64_scale_def
  f64_significand_def f64_fraction_def f64_sign_def f64_to_int_def drop_bit_eq_div

lemma f64_of_int64_3: "f64_of_int64 3 = 0x4008000000000000"
  by (simp add: f64_of_int64_def bitlen.simps Let_def)

lemma f64_integral_2: "f64_integral 0x4000000000000000"
  by (simp add: f64_defs)

lemma f64_fractional_1_5: "\<not> f64_integral 0x3FF8000000000000"
  by (simp add: f64_defs)

text \<open>
  C6. An Integer decodes into a floating-point destination without fail (the nearest
  float is stored). A Double decodes into an integer destination exactly when it has
  no fractional component; when it has one, the call fails with the precision-loss
  error and the destination keeps its content.
\<close>

theorem numeric_decode:
  "(shape_of i = GoFloat64 \<longrightarrow>
      Get (LongV n) i = (None, i\<lparr>content := NFloat (f64_of_int64 n)\<rparr>)) \<and>
   (shape_of j = GoInt64 \<longrightarrow>
      (fst (Get (DoubleV d) j) = None \<longleftrightarrow> f64_integral d) \<and>
      (\<not> f64_integral d \<longrightarrow> Get (DoubleV d) j = (Some (PrecisionLoss d), j)))"
  by (simp add: assign_def commit_def)

text \<open>
  At \<open>3\<close> (stored as the float \<open>3.0\<close>), at the Double \<open>2.0\<close> (bits \<open>0x4000000000000000\<close>)
  and at the Double \<open>1.5\<close> (bits \<open>0x3FF8000000000000\<close>).
\<close>

theorem numeric_decode_witness:
  "Get (LongV 3) \<lparr>shape_of = GoFloat64, content = NFloat 0\<rparr> =
     (None, \<lparr>shape_of = GoFloat64, content = NFloat 0x4008000000000000\<rparr>) \<and>
   f64_integral 0x4000000000000000 \<and>
   fst (Get (DoubleV 0x4000000000000000) \<lparr>shape_of = GoInt64, content = NInt 7\<rparr>) = None \<and>
   \<not> f64_integral 0x3FF8000000000000 \<and>
   Get (DoubleV 0x3FF8000000000000) \<lparr>shape_of = GoInt64, content = NInt 7\<rparr> =
     (Some (PrecisionLoss 0x3FF8000000000000), \<lparr>shape_of = GoInt64, content = NInt 7\<rparr>)"
proof -
  let ?i = "\<lparr>shape_of = GoFloat64, content = NFloat 0\<rparr>"
  let ?j = "\<lparr>shape_of = GoInt64, content = NInt 7\<rparr>"
  have si: "shape_of ?i = GoFloat64" and sj: "shape_of ?j = GoInt64" by simp_all
  from numeric_decode [of ?i 3 ?j "0x4000000000000000"] si sj
  have 1: "Get (LongV 3) ?i = (None, ?i\<lparr>content := NFloat (f64_of_int64 3)\<rparr>)"
    and 2: "fst (Get (DoubleV 0x4000000000000000) ?j) = None \<longleftrightarrow> f64_integral 0x4000000000000000"
    by blast+
  from numeric_decode [of ?i 3 ?j "0x3FF8000000000000"] sj f64_fractional_1_5
  have 3: "Get (DoubleV 0x3FF8000000000000) ?j = (Some (PrecisionLoss 0x3FF8000000000000), ?j)"
    by blast
  from 1 have 4: "Get (LongV 3) ?i =
      (None, \<lparr>shape_of = GoFloat64, content = NFloat 0x4008000000000000\<rparr>)"
    unfolding f64_of_int64_3 by simp
  have 5: "fst (Get (DoubleV 0x4000000000000000) ?j) = None"
    by (rule iffD2 [OF 2 f64_integral_2])
  show ?thesis
    by (intro conjI) (rule 4 f64_integral_2 5 f64_fractional_1_5 3)+
qed

subsection \<open>Containers\<close>

lemma sequence_first_error:
  "\<forall>r\<in>set pre. \<exists>x. r = Inr x \<Longrightarrow> sequence (pre @ Inl e # post) = Inl e"
proof (induction pre)
  case Nil
  show ?case by simp
next
  case (Cons r pre)
  then obtain x where "r = Inr x" by auto
  with Cons show ?case by simp
qed

lemma decode_ArrayV_first_error:
  assumes "\<forall>p\<in>set pre. \<exists>n. decode p t = Inr n" and "decode x t = Inl e"
  shows "decode (ArrayV (pre @ x # post)) (GoSlice t) = Inl e"
proof -
  have "sequence (map (\<lambda>x. decode x t) pre @ Inl e # map (\<lambda>x. decode x t) post) = Inl e"
    using assms(1) by (intro sequence_first_error) auto
  with assms(2) show ?thesis by simp
qed

lemma decode_ObjectV_first_error:
  assumes "\<forall>p\<in>set pre. \<exists>n. decode (snd p) t = Inr n" and "decode x t = Inl e"
  shows "decode (ObjectV (pre @ (k, x) # post)) (GoMap t) = Inl e"
proof -
  let ?f = "\<lambda>kv. entry (fst kv) (decode (snd kv) t)"
  have "\<forall>r\<in>set (map ?f pre). \<exists>y. r = Inr y"
    using assms(1) by fastforce
  then have "sequence (map ?f pre @ Inl e # map ?f post) = Inl e"
    by (rule sequence_first_error)
  with assms(2) show ?thesis by simp
qed

text \<open>
  C7. Container decoding is atomic. Whenever \<open>Get\<close> reports a failure the destination
  is exactly what it was before the call. When the elements of an Array before \<open>x\<close> all
  decode and \<open>x\<close> does not, decoding the Array into a sequence reports the failure of \<open>x\<close>
  and leaves the destination untouched; likewise for the entries of an Object decoded
  into a mapping, taken in the order in which the map is iterated.
\<close>

theorem container_decode_atomic:
  "(fst (Get v i) \<noteq> None \<longrightarrow> snd (Get v i) = i) \<and>
   (shape_of i = GoSlice t \<and> (\<forall>p\<in>set pre. \<exists>n. decode p t = Inr n) \<and> decode x t = Inl e
      \<longrightarrow> Get (ArrayV (pre @ x # post)) i = (Some e, i)) \<and>
   (shape_of i = GoMap t \<and> (\<forall>p\<in>set kpre. \<exists>n. decode (snd p) t = Inr n) \<and> decode x t = Inl e
      \<longrightarrow> Get (ObjectV (kpre @ (k, x) # kpost)) i = (Some e, i))"
proof (intro conjI impI)
  assume "fst (Get v i) \<noteq> None"
  then show "snd (Get v i) = i" by (rule Get_fail_frame)
next
  assume "shape_of i = GoSlice t \<and> (\<forall>p\<in>set pre. \<exists>n. decode p t = Inr n) \<and> decode x t = Inl e"
  then show "Get (ArrayV (pre @ x # post)) i = (Some e, i)"
    using decode_ArrayV_first_error [of pre t x e post]
    by (simp add: decodeArray_def commit_def del: decode.simps)
next
  assume "shape_of i = GoMap t \<and> (\<forall>p\<in>set kpre. \<exists>n. decode (snd p) t = Inr n) \<and> decode x t = Inl e"
  then show "Get (ObjectV (kpre @ (k, x) # kpost)) i = (Some e, i)"
    using decode_ObjectV_first_error [of kpre t x e k kpost]
    by (simp add: decodeMap_def commit_def del: decode.simps)
qed

text \<open>
  An Array of five elements whose element at index 3 is an Integer, decoded into a
  sequence of strings that already holds one string; and an Object whose second entry is
  a String, decoded into a mapping of integers.
\<close>

theorem container_decode_atomic_witness:
  "Get (ArrayV [StringV ''a'', StringV ''b'', StringV ''c'', LongV 1, BooleanV True])
       \<lparr>shape_of = GoSlice GoString, content = NSlice [NString ''old'']\<rparr> =
     (Some (TypeMismatch GoString (LongV 1)),
      \<lparr>shape_of = GoSlice GoString, content = NSlice [NString ''old'']\<rparr>) \<and>
   Get (ObjectV [(''k'', LongV 2), (''bad'', StringV ''x''), (''z'', NullV)])
       \<lparr>shape_of = GoMap GoInt64, content = NMap [(''old'', NInt 1)]\<rparr> =
     (Some (TypeMismatch GoInt64 (StringV ''x'')),
      \<lparr>shape_of = GoMap GoInt64, content = NMap [(''old'', NInt 1)]\<rparr>)"
  using container_decode_atomic [of NullV
      "\<lparr>shape_of = GoSlice GoString, content = NSlice [NString ''old'']\<rparr>" GoString
      "[StringV ''a'', StringV ''b'', StringV ''c'']" "LongV 1" "TypeMismatch GoString (LongV 1)"
      "[BooleanV True]" "[]" "''k''" "[]"]
    container_decode_atomic [of NullV
      "\<lparr>shape_of = GoMap GoInt64, content = NMap [(''old'', NInt 1)]\<rparr>" GoInt64
      "[]" "StringV ''x''" "TypeMismatch GoInt64 (StringV ''x'')" "[]"
      "[(''k'', LongV 2)]" "''bad''" "[(''z'', NullV)]"]
  by simp

section \<open>Properties of field paths\<close>

lemma segments_not_Nil: "segments field \<noteq> []"
  by (induction field) simp_all

lemma walk_leaf: "\<not> is_container v \<Longrightarrow> p \<noteq> [] \<Longrightarrow> walk p v = Inl NotTransversable"
  by (cases p; cases v) simp_all

text \<open>
  C8. Applied to a value of any variant other than Object and Array (String, Integer,
  Double, Boolean, Date, Time, Reference, SetReference, Null), every field path yields
  the "not transversable" failure, and so never a resolved value.
\<close>

theorem At_leaf_not_transversable:
  "\<not> is_container v \<Longrightarrow> At v field = Inl NotTransversable"
  by (simp add: At_def field_get_def walk_leaf segments_not_Nil)

theorem At_leaf_not_transversable_witness:
  "\<not> is_container (StringV ''x'') \<and>
   At (StringV ''x'') (AtIndex (ObjKey ''emails'') 0) = Inl NotTransversable \<and>
   \<not> is_container (SetRefV [(''match'', RefV ''indexes/i'')]) \<and>
   At (SetRefV [(''match'', RefV ''indexes/i'')]) (ObjKey ''match'') = Inl NotTransversable \<and>
   At NullV (ArrIndex 0) = Inl NotTransversable"
  using At_leaf_not_transversable [of "StringV ''x''" "AtIndex (ObjKey ''emails'') 0"]
    At_leaf_not_transversable [of "SetRefV [(''match'', RefV ''indexes/i'')]" "ObjKey ''match''"]
    At_leaf_not_transversable [of NullV "ArrIndex 0"]
  by simp

section \<open>Properties of the encoder\<close>

subsection \<open>Strings that need no escaping\<close>

lemma encode_chars_safe: "\<forall>c\<in>set s. html_safe c \<Longrightarrow> encode_chars s = s"
  by (induction s) (auto simp: html_safe_def)

lemma encode_string_safe: "\<forall>c\<in>set s. html_safe c \<Longrightarrow> encode_string s = dquote # s @ [dquote]"
  by (simp add: encode_string_def encode_chars_safe)

lemma escape_Inr: "escape key (Inr raw) = Inr (''{'' @ encode_string key @ '':'' @ raw @ ''}'')"
  by (simp add: escape_def encode_map_def encode_object_def encode_member_def)

lemma escape_Inl: "escape key (Inl e) = Inl e"
  by (simp add: escape_def encode_map_def)

lemma digit_cases: "n < 10 \<Longrightarrow> n \<in> {0, 1, 2, 3, 4, 5, 6, 7, 8, 9 :: nat}"
  by auto

lemma digit_char_safe: "n < 10 \<Longrightarrow> html_safe (digit_char n)"
  by (drule digit_cases) (auto simp: html_safe_def digit_char_def dquote_def backslash_def)

lemma decimal_safe: "\<forall>c\<in>set (decimal n). html_safe c"
proof (induction n rule: decimal.induct)
  case (1 n)
  show ?case
  proof (cases "n < 10")
    case True
    then show ?thesis by (subst decimal.simps) (simp add: digit_char_safe)
  next
    case False
    with 1 show ?thesis by (subst decimal.simps) (simp add: digit_char_safe)
  qed
qed

lemma html_safe_simps [simp]:
  "html_safe (CHR ''-'')" "html_safe (CHR ''0'')" "html_safe (CHR '':'')"
  "html_safe (CHR ''T'')" "html_safe (CHR ''Z'')" "html_safe (CHR ''.'')"
  by (simp_all add: html_safe_def dquote_def backslash_def)

lemma appendInt_safe: "\<forall>c\<in>set (appendInt x w). html_safe c"
  using decimal_safe by (auto simp: appendInt_def Let_def)

lemma nano_digits_safe: "\<forall>c\<in>set (nano_digits n). html_safe c"
  using decimal_safe by (auto simp: nano_digits_def Let_def)

lemma trim_zeros_subset: "set (trim_zeros ds) \<subseteq> set ds"
  unfolding trim_zeros_def using set_dropWhileD by fastforce

lemma formatNano_safe: "\<forall>c\<in>set (formatNano n). html_safe c"
proof -
  have "set (formatNano n) \<subseteq> insert (CHR ''.'') (set (nano_digits n))"
    using trim_zeros_subset [of "nano_digits n"] by (auto simp: formatNano_def Let_def)
  then show ?thesis using nano_digits_safe [of n] by auto
qed


lemma FormatTimestamp_safe: "\<forall>c\<in>set (FormatTimestamp t). html_safe c"
  using appendInt_safe formatNano_safe by (auto simp: FormatTimestamp_def FormatDate_def FormatClock_def)

subsection \<open>Decimal digits\<close>

lemma digit_char_props: "n < 10 \<Longrightarrow> is_digit (digit_char n) \<and> digit_val (digit_char n) = n"
  by (drule digit_cases) (auto simp: is_digit_def digit_val_def digit_char_def)

lemma digit_char_zero: "n < 10 \<Longrightarrow> digit_char n = CHR ''0'' \<longleftrightarrow> n = 0"
  by (drule digit_cases) (auto simp: digit_char_def)

lemma decimal_not_Nil: "decimal n \<noteq> []"
  by (subst decimal.simps) simp

lemma last_decimal: "last (decimal n) = digit_char (n mod 10)"
  by (subst decimal.simps) simp

lemma all_digits_decimal: "all_digits (decimal n)"
proof (induction n rule: decimal.induct)
  case (1 n)
  show ?case
  proof (cases "n < 10")
    case True
    then show ?thesis
      by (subst decimal.simps) (simp add: all_digits_def digit_char_props)
  next
    case False
    with 1 show ?thesis
      by (subst decimal.simps) (simp add: all_digits_def digit_char_props)
  qed
qed

lemma digits_val_snoc: "digits_val (ds @ [c]) = 10 * digits_val ds + digit_val c"
  by (simp add: digits_val_def)

lemma digits_val_append:
  "digits_val (xs @ ys) = digits_val xs * 10 ^ length ys + digits_val ys"
proof (induction ys rule: rev_induct)
  case Nil
  show ?case by (simp add: digits_val_def)
next
  case (snoc y ys)
  have "digits_val (xs @ ys @ [y]) = 10 * digits_val (xs @ ys) + digit_val y"
    using digits_val_snoc [of "xs @ ys" y] by simp
  also have "\<dots> = 10 * (digits_val xs * 10 ^ length ys + digits_val ys) + digit_val y"
    by (simp add: snoc.IH)
  also have "\<dots> = digits_val xs * 10 ^ length (ys @ [y]) + digits_val (ys @ [y])"
    by (simp add: digits_val_snoc algebra_simps)
  finally show ?case by simp
qed

lemma digits_val_zeros: "digits_val (replicate k (CHR ''0'')) = 0"
proof (induction k)
  case 0
  show ?case by (simp add: digits_val_def)
next
  case (Suc k)
  have "replicate (Suc k) (CHR ''0'') = replicate k (CHR ''0'') @ [CHR ''0'']"
    by (simp add: replicate_append_same)
  then show ?case
    using Suc by (simp only: digits_val_snoc) (simp add: digit_val_def)
qed

lemma digits_val_pad: "digits_val (replicate k (CHR ''0'') @ ds) = digits_val ds"
  by (simp add: digits_val_append digits_val_zeros)

lemma digits_val_decimal: "digits_val (decimal n) = n"
proof (induction n rule: decimal.induct)
  case (1 n)
  show ?case
  proof (cases "n < 10")
    case True
    then show ?thesis
      by (subst decimal.simps) (simp add: digits_val_def digit_char_props)
  next
    case False
    with 1 show ?thesis
      by (subst decimal.simps) (simp add: digits_val_snoc digit_char_props)
  qed
qed

lemma length_decimal: "n < 10 ^ k \<Longrightarrow> 0 < k \<Longrightarrow> length (decimal n) \<le> k"
proof (induction n arbitrary: k rule: decimal.induct)
  case (1 n)
  show ?case
  proof (cases "n < 10")
    case True
    with 1 show ?thesis by (subst decimal.simps) simp
  next
    case False
    obtain j where k: "k = Suc j" using 1 by (cases k) auto
    have "j \<noteq> 0" using False 1 k by (cases j) auto
    moreover have "n div 10 < 10 ^ j" using 1(2) k by (simp add: less_mult_imp_div_less)
    ultimately have "length (decimal (n div 10)) \<le> j"
      using 1(1) [OF False, of j] by simp
    with False k show ?thesis by (subst decimal.simps) simp
  qed
qed

subsection \<open>The fraction of a second\<close>

lemma length_nano_digits: "length (nano_digits n) = 9"
proof -
  have "length (decimal (n mod 1000000000)) \<le> 9"
    by (rule length_decimal) simp_all
  then show ?thesis by (simp add: nano_digits_def Let_def)
qed

lemma all_digits_nano_digits: "all_digits (nano_digits n)"
  using all_digits_decimal [of "n mod 1000000000"]
  by (auto simp: nano_digits_def Let_def all_digits_def is_digit_def)

lemma digits_val_nano_digits: "digits_val (nano_digits n) = n mod 1000000000"
  by (simp add: nano_digits_def Let_def digits_val_pad digits_val_decimal)

lemma last_nano_digits: "last (nano_digits n) = digit_char (n mod 10)"
proof -
  have "n mod 1000000000 mod 10 = n mod 10"
    by (simp add: mod_mod_cancel)
  then show ?thesis
    by (simp add: nano_digits_def Let_def decimal_not_Nil last_decimal)
qed

lemma trim_zeros_decomp:
  "ds = trim_zeros ds @ replicate (length ds - length (trim_zeros ds)) (CHR ''0'')"
proof -
  let ?P = "\<lambda>c. c = CHR ''0''"
  have z: "takeWhile ?P (rev ds) = replicate (length (takeWhile ?P (rev ds))) (CHR ''0'')"
    by (rule replicate_length_same [symmetric]) (auto dest: set_takeWhileD)
  have "rev ds = takeWhile ?P (rev ds) @ dropWhile ?P (rev ds)" by simp
  then have "ds = rev (dropWhile ?P (rev ds)) @ rev (takeWhile ?P (rev ds))"
    by (metis rev_append rev_rev_ident)
  also have "rev (takeWhile ?P (rev ds)) = replicate (length (takeWhile ?P (rev ds))) (CHR ''0'')"
    using z by (metis rev_replicate)
  also have "length (takeWhile ?P (rev ds)) = length ds - length (trim_zeros ds)"
  proof -
    have "length (takeWhile ?P (rev ds)) + length (dropWhile ?P (rev ds)) = length (rev ds)"
      by (metis length_append takeWhile_dropWhile_id)
    then show ?thesis by (simp add: trim_zeros_def)
  qed
  finally show ?thesis by (simp add: trim_zeros_def)
qed

lemma trim_zeros_last: "trim_zeros ds \<noteq> [] \<Longrightarrow> last (trim_zeros ds) \<noteq> CHR ''0''"
  using hd_dropWhile [of "\<lambda>c. c = CHR ''0''" "rev ds"] by (simp add: trim_zeros_def last_rev)

lemma trim_zeros_id: "ds \<noteq> [] \<Longrightarrow> last ds \<noteq> CHR ''0'' \<Longrightarrow> trim_zeros ds = ds"
  by (cases ds rule: rev_cases) (simp_all add: trim_zeros_def)

lemma length_trim_zeros: "length (trim_zeros ds) \<le> length ds"
  by (simp add: trim_zeros_def length_dropWhile_le [of _ "rev ds", simplified])

lemma all_digits_trim_zeros: "all_digits ds \<Longrightarrow> all_digits (trim_zeros ds)"
  using trim_zeros_subset [of ds] by (auto simp: all_digits_def)

lemma trimmed_value:
  "digits_val (trim_zeros (nano_digits n)) * 10 ^ (9 - length (trim_zeros (nano_digits n))) =
     n mod 1000000000"
proof -
  let ?t = "trim_zeros (nano_digits n)"
  have "digits_val (nano_digits n) = digits_val (?t @ replicate (9 - length ?t) (CHR ''0''))"
    using trim_zeros_decomp [of "nano_digits n"] by (simp add: length_nano_digits)
  then show ?thesis
    by (simp add: digits_val_append digits_val_zeros digits_val_nano_digits)
qed

lemma formatNano_zero: "formatNano 0 = []"
  by (simp add: formatNano_def nano_digits_def trim_zeros_def decimal.simps digit_char_def)

lemma formatNano_nonzero:
  assumes "n < 1000000000" and "n \<noteq> 0"
  shows "\<exists>ds. formatNano n = CHR ''.'' # ds \<and> ds \<noteq> [] \<and> length ds \<le> 9 \<and> all_digits ds \<and>
           last ds \<noteq> CHR ''0'' \<and> digits_val ds * 10 ^ (9 - length ds) = n"
proof -
  let ?t = "trim_zeros (nano_digits n)"
  have v: "digits_val ?t * 10 ^ (9 - length ?t) = n"
    using trimmed_value [of n] assms(1) by simp
  have ne: "?t \<noteq> []"
  proof
    assume "?t = []"
    with v have "n = 0" by (simp add: digits_val_def)
    with assms(2) show False by simp
  qed
  have "length ?t \<le> 9"
    using length_trim_zeros [of "nano_digits n"] by (simp add: length_nano_digits)
  moreover have "all_digits ?t"
    by (rule all_digits_trim_zeros) (rule all_digits_nano_digits)
  moreover have "last ?t \<noteq> CHR ''0''" using ne by (rule trim_zeros_last)
  ultimately show ?thesis using ne v by (simp add: formatNano_def Let_def)
qed

lemma formatNano_nine:
  assumes "n < 1000000000" and "n mod 10 \<noteq> 0"
  shows "formatNano n = CHR ''.'' # nano_digits n"
proof -
  have "nano_digits n \<noteq> []" using length_nano_digits [of n] by auto
  moreover have "last (nano_digits n) \<noteq> CHR ''0''"
    using assms(2) by (simp add: last_nano_digits digit_char_zero)
  ultimately have "trim_zeros (nano_digits n) = nano_digits n" by (rule trim_zeros_id)
  with \<open>nano_digits n \<noteq> []\<close> show ?thesis by (simp add: formatNano_def Let_def)
qed

lemma length_appendInt:
  assumes "0 \<le> x" and "x < 10 ^ w" and "0 < w"
  shows "length (appendInt x w) = w"
proof -
  have "nat \<bar>x\<bar> < 10 ^ w" using assms(1,2) by (simp add: nat_less_iff)
  then have "length (decimal (nat \<bar>x\<bar>)) \<le> w" using assms(3) by (rule length_decimal)
  with assms(1) show ?thesis by (simp add: appendInt_def Let_def)
qed

lemma length_FormatClock: "valid_clock t \<Longrightarrow> length (FormatClock t) = 8"
  by (simp add: FormatClock_def valid_clock_def length_appendInt)

lemma days_in_le: "days_in y m \<le> 31"
  by (simp add: days_in_def)

lemma length_FormatDate:
  assumes "valid_date t" and "0 \<le> year t" and "year t \<le> 9999"
  shows "length (FormatDate t) = 10"
proof -
  have "day t \<le> 31" using assms(1) days_in_le [of "year t" "month t"] by (simp add: valid_date_def)
  with assms show ?thesis
    by (simp add: FormatDate_def valid_date_def length_appendInt)
qed

lemma encode_string_tag_ts: \<open>encode_string ''@ts'' = [dquote] @ ''@ts'' @ [dquote]\<close>
  by (simp add: encode_string_def html_safe_def dquote_def backslash_def)

lemma TimeV_bytes:
  \<open>Marshal ff (TimeV t) = Inr (''{"@ts":"'' @ FormatTimestamp t @ ''"}'')\<close>
  by (simp add: escape_Inr encode_string_tag_ts encode_string_safe FormatTimestamp_safe dquote_def)

lemmas format_defs = FormatTimestamp_def FormatDate_def FormatClock_def appendInt_def
  formatNano_def nano_digits_def trim_zeros_def decimal.simps digit_char_def Let_def

lemmas encode_defs = escape_def encode_map_def encode_object_def encode_member_def
  encode_array_def encode_string_def html_safe_def FormatInt_def decimal.simps digit_char_def
  dquote_def backslash_def

subsection \<open>Time\<close>

text \<open>
  C1, as amended. For every Time value whose location is UTC, encoding produces the
  single-key object \<^verbatim>\<open>{"@ts": s}\<close>, where \<open>s\<close> is the date, \<^verbatim>\<open>T\<close>, the time of day,
  the fraction of the second and \<^verbatim>\<open>Z\<close>. The fraction is exact to the nanosecond and
  written with its trailing zeros removed: nothing when the nanoseconds are zero,
  otherwise a dot and one to nine digits, the last of them not a zero; all nine digits
  are written exactly when the count of nanoseconds is not a multiple of ten.
\<close>

theorem TimeV_MarshalJSON:
  assumes "zone_offset t = 0" and "valid_clock t"
  shows \<open>Marshal ff (TimeV t) =
           Inr (''{"@ts":"'' @ FormatDate t @ ''T'' @ FormatClock t @
                formatNano (nanosecond t) @ ''Z"}'') \<and>
         length (FormatClock t) = 8 \<and>
         (valid_date t \<and> 0 \<le> year t \<and> year t \<le> 9999 \<longrightarrow> length (FormatDate t) = 10) \<and>
         (nanosecond t = 0 \<longrightarrow> formatNano (nanosecond t) = []) \<and>
         (nanosecond t \<noteq> 0 \<longrightarrow>
            (\<exists>ds. formatNano (nanosecond t) = CHR ''.'' # ds \<and> ds \<noteq> [] \<and> length ds \<le> 9 \<and>
                  all_digits ds \<and> last ds \<noteq> CHR ''0'' \<and>
                  digits_val ds * 10 ^ (9 - length ds) = nanosecond t)) \<and>
         (nanosecond t mod 10 \<noteq> 0 \<longrightarrow> length (formatNano (nanosecond t)) = 10)\<close>
proof (intro conjI impI)
  show \<open>Marshal ff (TimeV t) =
      Inr (''{"@ts":"'' @ FormatDate t @ ''T'' @ FormatClock t @ formatNano (nanosecond t) @ ''Z"}'')\<close>
    unfolding TimeV_bytes FormatTimestamp_def by simp
  show "length (FormatClock t) = 8"
    using assms(2) by (rule length_FormatClock)
  show "length (FormatDate t) = 10" if "valid_date t \<and> 0 \<le> year t \<and> year t \<le> 9999"
    using that by (simp add: length_FormatDate)
  show "formatNano (nanosecond t) = []" if "nanosecond t = 0"
    using that by (simp add: formatNano_zero)
  have n: "nanosecond t < 1000000000" using assms(2) by (simp add: valid_clock_def)
  show "\<exists>ds. formatNano (nanosecond t) = CHR ''.'' # ds \<and> ds \<noteq> [] \<and> length ds \<le> 9 \<and>
      all_digits ds \<and> last ds \<noteq> CHR ''0'' \<and> digits_val ds * 10 ^ (9 - length ds) = nanosecond t"
    if "nanosecond t \<noteq> 0"
    using n that by (rule formatNano_nonzero)
  show "length (formatNano (nanosecond t)) = 10" if "nanosecond t mod 10 \<noteq> 0"
    using formatNano_nine [OF n that] by (simp add: length_nano_digits)
qed

text \<open>At 10:00:05.123456789 on 15 June 2020, UTC.\<close>

theorem TimeV_MarshalJSON_witness:
  \<open>zone_offset \<lparr>year = 2020, month = 6, day = 15, hour = 10, minute = 0, second = 5,
       nanosecond = 123456789, zone_offset = 0\<rparr> = 0 \<and>
     valid_clock \<lparr>year = 2020, month = 6, day = 15, hour = 10, minute = 0, second = 5,
       nanosecond = 123456789, zone_offset = 0\<rparr> \<and>
     Marshal (\<lambda>d. []) (TimeV \<lparr>year = 2020, month = 6, day = 15, hour = 10, minute = 0,
       second = 5, nanosecond = 123456789, zone_offset = 0\<rparr>) =
       Inr ''{"@ts":"2020-06-15T10:00:05.123456789Z"}'' \<and>
     length (formatNano 123456789) = 10\<close>
  using TimeV_MarshalJSON [of "\<lparr>year = 2020, month = 6, day = 15, hour = 10, minute = 0,
       second = 5, nanosecond = 123456789, zone_offset = 0\<rparr>" "\<lambda>d. []"]
  by (simp add: valid_clock_def format_defs)

text \<open>
  C1 as stated fails where it says that nine fractional digits are always written: a
  Time on a whole second is written without any fraction, and one at 120 milliseconds
  with two digits.
\<close>

theorem TimeV_fraction_not_fixed:
  \<open>Marshal (\<lambda>d. []) (TimeV \<lparr>year = 2020, month = 6, day = 15, hour = 10, minute = 0,
       second = 5, nanosecond = 0, zone_offset = 0\<rparr>) = Inr ''{"@ts":"2020-06-15T10:00:05Z"}'' \<and>
     Marshal (\<lambda>d. []) (TimeV \<lparr>year = 2020, month = 6, day = 15, hour = 10, minute = 0,
       second = 5, nanosecond = 120000000, zone_offset = 0\<rparr>) =
       Inr ''{"@ts":"2020-06-15T10:00:05.12Z"}''\<close>
  unfolding TimeV_bytes by (simp add: format_defs)

subsection \<open>Sorting the entries of a map\<close>

lemma sort_key_fst_unique:
  assumes "distinct (map fst xs)" and "distinct (map fst ys)" and "set xs = set ys"
  shows "sort_key fst xs = sort_key fst ys"
proof (rule sort_key_inj_key_eq)
  have "distinct xs" "distinct ys"
    using assms(1,2) by (simp_all add: distinct_map)
  with assms(3) have "mset xs = mset ys"
    by (simp add: set_eq_iff_mset_eq_distinct)
  then show "mset xs = mset (sort_key fst ys)" by simp
  show "inj_on fst (set xs)" using assms(1) by (simp add: distinct_map)
  show "sorted (map fst (sort_key fst ys))" by simp
qed

lemma insort_key_map:
  assumes "\<And>x. f (h x) = g x"
  shows "insort_key f (h x) (map h ys) = map h (insort_key g x ys)"
  by (induction ys) (simp_all add: assms)

lemma sort_key_map:
  assumes "\<And>x. f (h x) = g x"
  shows "sort_key f (map h xs) = map h (sort_key g xs)"
  by (induction xs) (simp_all add: insort_key_map [of f h g, OF assms])

lemma sequence_Inr: "sequence (map (\<lambda>x. Inr (h x)) xs) = Inr (map h xs)"
  by (induction xs) simp_all

lemma sequence_map_cong:
  "(\<And>x. x \<in> set xs \<Longrightarrow> f x = g x) \<Longrightarrow> sequence (map f xs) = sequence (map g xs)"
  by (simp cong: map_cong)

text \<open>
  When every value of a map encodes, the map is encoded as the object of its entries in
  the order of their keys.
\<close>

lemma encode_map_Inr:
  assumes "\<And>kv. kv \<in> set obj \<Longrightarrow> M (snd kv) = Inr (g (snd kv))"
  shows "encode_map (map (\<lambda>kv. (fst kv, M (snd kv))) obj) =
           Inr (encode_object (map (\<lambda>kv. (fst kv, g (snd kv))) (sort_key fst obj)))"
proof -
  have "sort_key fst (map (\<lambda>kv. (fst kv, M (snd kv))) obj) =
        map (\<lambda>kv. (fst kv, M (snd kv))) (sort_key fst obj)"
    by (rule sort_key_map) simp
  moreover have "sequence (map (\<lambda>kv. entry (fst kv) (M (snd kv))) (sort_key fst obj)) =
        sequence (map (\<lambda>kv. Inr (fst kv, g (snd kv))) (sort_key fst obj))"
    by (rule sequence_map_cong) (simp add: assms)
  ultimately show ?thesis
    by (simp add: encode_map_def comp_def sequence_Inr)
qed

subsection \<open>Determinism\<close>

lemma list_all2_map_eq:
  assumes "list_all2 R xs ys"
    and "\<And>x y. x \<in> set xs \<Longrightarrow> y \<in> set ys \<Longrightarrow> R x y \<Longrightarrow> f x = f y"
  shows "map f xs = map f ys"
  using assms by (induction rule: list_all2_induct) simp_all

lemma DeepEqual_entries_set:
  assumes len: "length a = length b"
    and da: "distinct (map fst a)" and db: "distinct (map fst b)"
    and look: "\<And>kv. kv \<in> set a \<Longrightarrow> \<exists>y. map_of b (fst kv) = Some y \<and> M (snd kv) = M y"
  shows "set (map (\<lambda>kv. (fst kv, M (snd kv))) a) = set (map (\<lambda>kv. (fst kv, M (snd kv))) b)"
proof -
  let ?h = "\<lambda>kv. (fst kv, M (snd kv))"
  have sub: "set (map ?h a) \<subseteq> set (map ?h b)"
  proof
    fix p assume "p \<in> set (map ?h a)"
    then obtain kv where kv: "kv \<in> set a" and p: "p = ?h kv" by auto
    from look [OF kv] obtain y where y: "map_of b (fst kv) = Some y" and eq: "M (snd kv) = M y"
      by blast
    from y have "(fst kv, y) \<in> set b" by (rule map_of_SomeD)
    then have "?h (fst kv, y) \<in> ?h ` set b" by (rule imageI)
    with p eq show "p \<in> set (map ?h b)" by simp
  qed
  have ka: "map fst (map ?h a) = map fst a" and kb: "map fst (map ?h b) = map fst b"
    by (simp_all add: comp_def)
  have "distinct (map ?h a)" "distinct (map ?h b)"
    using da db ka kb by (metis distinct_map)+
  then have "card (set (map ?h a)) = length a" "card (set (map ?h b)) = length b"
    by (simp_all add: distinct_card del: set_map)
  with len sub show ?thesis
    by (metis card_subset_eq List.finite_set)
qed

lemma encode_map_DeepEqual:
  assumes "length a = length b" and "distinct (map fst a)" and "distinct (map fst b)"
    and "\<And>kv. kv \<in> set a \<Longrightarrow> \<exists>y. map_of b (fst kv) = Some y \<and> M (snd kv) = M y"
  shows "encode_map (map (\<lambda>kv. (fst kv, M (snd kv))) a) =
         encode_map (map (\<lambda>kv. (fst kv, M (snd kv))) b)"
proof -
  let ?h = "\<lambda>kv. (fst kv, M (snd kv))"
  have "sort_key fst (map ?h a) = sort_key fst (map ?h b)"
  proof (rule sort_key_fst_unique)
    show "distinct (map fst (map ?h a))" using assms(2) by (simp add: comp_def)
    show "distinct (map fst (map ?h b))" using assms(3) by (simp add: comp_def)
    show "set (map ?h a) = set (map ?h b)" using assms by (rule DeepEqual_entries_set)
  qed
  then show ?thesis by (simp add: encode_map_def)
qed

lemma Marshal_DeepEqual:
  "wf_value v \<Longrightarrow> wf_value w \<Longrightarrow> DeepEqual v w \<Longrightarrow> Marshal ff v = Marshal ff w"
proof (induction v arbitrary: w)
  case (SetRefV a)
  show ?case
  proof (cases w)
    case (SetRefV b)
    have "encode_map (map (\<lambda>kv. (fst kv, Marshal ff (snd kv))) a) =
          encode_map (map (\<lambda>kv. (fst kv, Marshal ff (snd kv))) b)"
    proof (rule encode_map_DeepEqual)
      show "length a = length b" "distinct (map fst a)" "distinct (map fst b)"
        using SetRefV.prems SetRefV by simp_all
      fix kv assume kv: "kv \<in> set a"
      with SetRefV.prems(3) SetRefV obtain y where y: "map_of b (fst kv) = Some y"
        and d: "DeepEqual (snd kv) y"
        by (auto split: option.splits)
      from y have "(fst kv, y) \<in> set b" by (rule map_of_SomeD)
      with SetRefV.prems(2) SetRefV have "wf_value y" by auto
      moreover have "wf_value (snd kv)" using kv SetRefV.prems(1) by auto
      moreover have "snd kv \<in> Basic_BNFs.snds kv" by (cases kv) simp
      ultimately have "Marshal ff (snd kv) = Marshal ff y"
        using SetRefV.IH [OF kv] d by blast
      with y show "\<exists>y. map_of b (fst kv) = Some y \<and> Marshal ff (snd kv) = Marshal ff y"
        by blast
    qed
    with SetRefV show ?thesis by simp
  qed (use SetRefV.prems in simp_all)
next
  case (ObjectV a)
  show ?case
  proof (cases w)
    case (ObjectV b)
    have "encode_map (map (\<lambda>kv. (fst kv, Marshal ff (snd kv))) a) =
          encode_map (map (\<lambda>kv. (fst kv, Marshal ff (snd kv))) b)"
    proof (rule encode_map_DeepEqual)
      show "length a = length b" "distinct (map fst a)" "distinct (map fst b)"
        using ObjectV.prems ObjectV by simp_all
      fix kv assume kv: "kv \<in> set a"
      with ObjectV.prems(3) ObjectV obtain y where y: "map_of b (fst kv) = Some y"
        and d: "DeepEqual (snd kv) y"
        by (auto split: option.splits)
      from y have "(fst kv, y) \<in> set b" by (rule map_of_SomeD)
      with ObjectV.prems(2) ObjectV have "wf_value y" by auto
      moreover have "wf_value (snd kv)" using kv ObjectV.prems(1) by auto
      moreover have "snd kv \<in> Basic_BNFs.snds kv" by (cases kv) simp
      ultimately have "Marshal ff (snd kv) = Marshal ff y"
        using ObjectV.IH [OF kv] d by blast
      with y show "\<exists>y. map_of b (fst kv) = Some y \<and> Marshal ff (snd kv) = Marshal ff y"
        by blast
    qed
    with ObjectV show ?thesis by simp
  qed (use ObjectV.prems in simp_all)
next
  case (ArrayV a)
  show ?case
  proof (cases w)
    case (ArrayV b)
    with ArrayV.prems have l: "list_all2 DeepEqual a b" by simp
    have "map (Marshal ff) a = map (Marshal ff) b"
    proof (rule list_all2_map_eq [OF l])
      fix x y assume "x \<in> set a" "y \<in> set b" "DeepEqual x y"
      then show "Marshal ff x = Marshal ff y"
        using ArrayV.IH ArrayV.prems(1,2) ArrayV by auto
    qed
    with ArrayV show ?thesis by simp
  qed (use ArrayV.prems in simp_all)
qed simp_all

lemma encode_string_tags:
  \<open>encode_string ''object'' = ''"object"''\<close>
  \<open>encode_string ''@set'' = ''"@set"''\<close>
  \<open>encode_string ''@ref'' = ''"@ref"''\<close>
  \<open>encode_string ''@date'' = ''"@date"''\<close>
  by (simp_all add: encode_string_def html_safe_def dquote_def backslash_def)

lemma ObjectV_bytes:
  assumes "\<And>kv. kv \<in> set obj \<Longrightarrow> Marshal ff (snd kv) = Inr (g (snd kv))"
  shows \<open>Marshal ff (ObjectV obj) =
    Inr (''{"object":'' @ encode_object (map (\<lambda>kv. (fst kv, g (snd kv))) (sort_key fst obj)) @ ''}'')\<close>
  using encode_map_Inr [of obj "Marshal ff" g, OF assms]
  by (simp add: escape_Inr encode_string_tags)

lemma SetRefV_bytes:
  assumes "\<And>kv. kv \<in> set ps \<Longrightarrow> Marshal ff (snd kv) = Inr (g (snd kv))"
  shows \<open>Marshal ff (SetRefV ps) =
    Inr (''{"@set":'' @ encode_object (map (\<lambda>kv. (fst kv, g (snd kv))) (sort_key fst ps)) @ ''}'')\<close>
  using encode_map_Inr [of ps "Marshal ff" g, OF assms]
  by (simp add: escape_Inr encode_string_tags)

lemma ObjectV_fails:
  assumes "encode_map (map (\<lambda>kv. (fst kv, Marshal ff (snd kv))) obj) = Inl e"
  shows "Marshal ff (ObjectV obj) = Inl e"
  using assms by (simp add: escape_Inl)

text \<open>
  C10. Encoding is deterministic. Two representations of the same value, that is two
  values equal in the sense of \<open>DeepEqual\<close>, whose maps list the same entries in
  whatever order, are encoded to the same bytes. The reason is that a map is written
  with its entries in the sorted order of its keys, for an Object as for a
  SetReference.
\<close>

theorem Marshal_deterministic:
  \<open>(wf_value v \<and> wf_value w \<and> DeepEqual v w \<longrightarrow> Marshal ff v = Marshal ff w) \<and>
   ((\<forall>kv\<in>set m. Marshal ff (snd kv) = Inr (g (snd kv))) \<longrightarrow>
      Marshal ff (ObjectV m) =
        Inr (''{"object":'' @
             encode_object (map (\<lambda>kv. (fst kv, g (snd kv))) (sort_key fst m)) @ ''}'') \<and>
      Marshal ff (SetRefV m) =
        Inr (''{"@set":'' @
             encode_object (map (\<lambda>kv. (fst kv, g (snd kv))) (sort_key fst m)) @ ''}'') \<and>
      sorted (map fst (sort_key fst m)))\<close>
proof (intro conjI impI)
  assume "wf_value v \<and> wf_value w \<and> DeepEqual v w"
  then show "Marshal ff v = Marshal ff w" by (simp add: Marshal_DeepEqual)
next
  assume a: "\<forall>kv\<in>set m. Marshal ff (snd kv) = Inr (g (snd kv))"
  then show \<open>Marshal ff (ObjectV m) =
        Inr (''{"object":'' @
             encode_object (map (\<lambda>kv. (fst kv, g (snd kv))) (sort_key fst m)) @ ''}'')\<close>
    by (intro ObjectV_bytes) simp
  from a show \<open>Marshal ff (SetRefV m) =
        Inr (''{"@set":'' @
             encode_object (map (\<lambda>kv. (fst kv, g (snd kv))) (sort_key fst m)) @ ''}'')\<close>
    by (intro SetRefV_bytes) simp
  show "sorted (map fst (sort_key fst m))" by simp
qed

text \<open>A SetReference and an Object inside it, each listed in two different orders.\<close>

theorem Marshal_deterministic_witness:
  \<open>wf_value (SetRefV [(''terms'', ObjectV [(''b'', LongV 2), (''a'', NullV)]), (''match'', RefV ''i'')]) \<and>
   wf_value (SetRefV [(''match'', RefV ''i''), (''terms'', ObjectV [(''a'', NullV), (''b'', LongV 2)])]) \<and>
   DeepEqual (SetRefV [(''terms'', ObjectV [(''b'', LongV 2), (''a'', NullV)]), (''match'', RefV ''i'')])
     (SetRefV [(''match'', RefV ''i''), (''terms'', ObjectV [(''a'', NullV), (''b'', LongV 2)])]) \<and>
   Marshal (\<lambda>d. []) (SetRefV [(''terms'', ObjectV [(''b'', LongV 2), (''a'', NullV)]), (''match'', RefV ''i'')]) =
   Marshal (\<lambda>d. []) (SetRefV [(''match'', RefV ''i''), (''terms'', ObjectV [(''a'', NullV), (''b'', LongV 2)])]) \<and>
   Marshal (\<lambda>d. []) (SetRefV [(''match'', RefV ''i''), (''terms'', ObjectV [(''a'', NullV), (''b'', LongV 2)])]) =
     Inr ''{"@set":{"match":{"@ref":"i"},"terms":{"object":{"a":null,"b":2}}}}''\<close>
proof -
  let ?v = "SetRefV [(''terms'', ObjectV [(''b'', LongV 2), (''a'', NullV)]), (''match'', RefV ''i'')]"
  let ?w = "SetRefV [(''match'', RefV ''i''), (''terms'', ObjectV [(''a'', NullV), (''b'', LongV 2)])]"
  have h: "wf_value ?v \<and> wf_value ?w \<and> DeepEqual ?v ?w" by simp
  with Marshal_deterministic [of ?v ?w "\<lambda>d. []" "[]" "\<lambda>v. []"]
  have "Marshal (\<lambda>d. []) ?v = Marshal (\<lambda>d. []) ?w" by blast
  moreover have \<open>Marshal (\<lambda>d. []) ?w =
      Inr ''{"@set":{"match":{"@ref":"i"},"terms":{"object":{"a":null,"b":2}}}}''\<close>
    by (simp add: encode_defs)
  ultimately show ?thesis using h by blast
qed

subsection \<open>Object\<close>







section \<open>Round trip\<close>

subsection \<open>Strings survive the wire\<close>

lemma cons_result_Some [simp]: "cons_result p (Some (s, q)) = Some (p @ s, q)"
  by (simp add: cons_result_def)

lemma parse_chars_plain:
  assumes "c \<noteq> dquote" and "c \<noteq> backslash" and "32 \<le> (of_char c :: nat)"
  shows "parse_chars (c # cs) = cons_result [c] (parse_chars cs)"
  using assms by (subst parse_chars.simps) simp

lemma parse_chars_high:
  assumes "\<forall>c\<in>set bs. 128 \<le> (of_char c :: nat)"
  shows "parse_chars (bs @ r) = cons_result bs (parse_chars r)"
  using assms
proof (induction bs)
  case Nil
  show ?case by (cases "parse_chars r") (auto simp: cons_result_def)
next
  case (Cons b bs)
  then have b: "128 \<le> (of_char b :: nat)" by simp
  then have "b \<noteq> dquote" "b \<noteq> backslash" "32 \<le> (of_char b :: nat)"
    by (auto simp: dquote_def backslash_def)
  then have "parse_chars (b # bs @ r) = cons_result [b] (parse_chars (bs @ r))"
    by (rule parse_chars_plain)
  with Cons show ?case
    by (cases "parse_chars r") (auto simp: cons_result_def)
qed

lemma hex_digit_cases:
  "n < 16 \<Longrightarrow> n \<in> {0, 1, 2, 3, 4, 5, 6, 7, 8, 9, 10, 11, 12, 13, 14, 15 :: nat}"
  by simp arith

lemma hex_val_hex_digit: "n < 16 \<Longrightarrow> hex_val (hex_digit n) = Some n"
  by (drule hex_digit_cases) (auto simp: hex_val_def hex_digit_def)

lemma hex4_byte:
  assumes "n < 256"
  shows "hex4 [CHR ''0'', CHR ''0'', hex_digit (n div 16), hex_digit (n mod 16)] = Some n"
proof -
  have "n div 16 < 16" using assms by simp
  then show ?thesis
    by (simp add: hex4_def hex_val_hex_digit) (simp add: hex_val_def)
qed

lemma parse_chars_escape_byte:
  assumes "(of_char a :: nat) < 128" and "\<not> html_safe a"
  shows "parse_chars (escape_byte a @ r) = cons_result [a] (parse_chars r)"
proof -
  consider "a = dquote \<or> a = backslash" | "a = CHR 0x0A" | "a = CHR 0x0D" | "a = CHR 0x09"
    | "a \<noteq> dquote" "a \<noteq> backslash" "a \<noteq> CHR 0x0A" "a \<noteq> CHR 0x0D" "a \<noteq> CHR 0x09"
    by blast
  then show ?thesis
  proof cases
    case 1
    then have "escape_byte a = [backslash, a]" by (simp add: escape_byte_def)
    with 1 show ?thesis
      by (auto simp: parse_chars.simps(2) unescape_def dquote_def backslash_def)
  next
    case 2
    then have "escape_byte a = [backslash, CHR ''n'']"
      by (simp add: escape_byte_def dquote_def backslash_def)
    with 2 show ?thesis
      by (simp add: parse_chars.simps(2) unescape_def dquote_def backslash_def)
  next
    case 3
    then have "escape_byte a = [backslash, CHR ''r'']"
      by (simp add: escape_byte_def dquote_def backslash_def)
    with 3 show ?thesis
      by (simp add: parse_chars.simps(2) unescape_def dquote_def backslash_def)
  next
    case 4
    then have "escape_byte a = [backslash, CHR ''t'']"
      by (simp add: escape_byte_def dquote_def backslash_def)
    with 4 show ?thesis
      by (simp add: parse_chars.simps(2) unescape_def dquote_def backslash_def)
  next
    case 5
    let ?n = "of_char a :: nat"
    have e: "escape_byte a =
        [backslash, CHR ''u'', CHR ''0'', CHR ''0'', hex_digit (?n div 16), hex_digit (?n mod 16)]"
      using 5 by (simp add: escape_byte_def)
    have h: "hex4 [CHR ''0'', CHR ''0'', hex_digit (?n div 16), hex_digit (?n mod 16)] = Some ?n"
      using assms(1) by (intro hex4_byte) simp
    have u: "utf8_encode ?n = [a]" using assms(1) by (simp add: utf8_encode_def)
    show ?thesis
      unfolding e using h u assms(1)
      by (simp add: parse_chars.simps(2) dquote_def backslash_def)
  qed
qed

lemma utf8_len_high:
  assumes "128 \<le> (of_char a :: nat)" and "utf8_len (a # s) \<noteq> 0"
  shows "utf8_len (a # s) \<le> Suc (length s) \<and> 2 \<le> utf8_len (a # s) \<and>
         (\<forall>c\<in>set (take (utf8_len (a # s)) (a # s)). 128 \<le> (of_char c :: nat))"
proof -
  let ?x = "of_char a :: nat"
  consider (two) "0xC2 \<le> ?x" "?x \<le> 0xDF"
    | (three) "0xE0 \<le> ?x" "?x \<le> 0xEF"
    | (four) "0xF0 \<le> ?x" "?x \<le> 0xF4"
    | (none) "?x < 0xC2 \<or> 0xF4 < ?x"
    by linarith
  then show ?thesis
  proof cases
    case two
    with assms show ?thesis
      by (cases s) (auto simp: Let_def continuation_def split: if_splits)
  next
    case three
    with assms show ?thesis
      by (cases s; cases "tl s")
        (auto simp: Let_def continuation_def second_ok_def split: if_splits)
  next
    case four
    with assms show ?thesis
      by (cases s; cases "tl s"; cases "tl (tl s)")
        (auto simp: Let_def continuation_def second_ok_def split: if_splits)
  next
    case none
    with assms show ?thesis by (auto simp: Let_def)
  qed
qed

lemma utf8_encode_separators:
  "utf8_encode 0x2028 = line_separator" "utf8_encode 0x2029 = paragraph_separator"
  by (simp_all add: utf8_encode_def line_separator_def paragraph_separator_def char_of_eq_iff)

lemma hex4_separators:
  "hex4 ''2028'' = Some 0x2028" "hex4 ''2029'' = Some 0x2029"
  by (simp_all add: hex4_def hex_val_def)

lemma parse_chars_u2028:
  "parse_chars (backslash # ''u2028'' @ r) = cons_result line_separator (parse_chars r)"
  using hex4_separators(1) utf8_encode_separators(1)
  by (simp add: parse_chars.simps(2) dquote_def backslash_def)

lemma parse_chars_u2029:
  "parse_chars (backslash # ''u2029'' @ r) = cons_result paragraph_separator (parse_chars r)"
  using hex4_separators(2) utf8_encode_separators(2)
  by (simp add: parse_chars.simps(2) dquote_def backslash_def)

lemma cons_result_append:
  "cons_result p (cons_result q r) = cons_result (p @ q) r"
  by (cases r) (auto simp: cons_result_def)

lemma parse_encode_chars:
  "valid_utf8 s \<Longrightarrow> parse_chars (encode_chars s @ dquote # rest) = Some (s, rest)"
proof (induction "length s" arbitrary: s rule: less_induct)
  case less
  show ?case
  proof (cases s)
    case Nil
    then show ?thesis by (simp add: parse_chars.simps(2))
  next
    case (Cons a t)
    show ?thesis
    proof (cases "(of_char a :: nat) < 128")
      case True
      with less.prems Cons have "valid_utf8 t" by simp
      then have IH: "parse_chars (encode_chars t @ dquote # rest) = Some (t, rest)"
        using less.hyps [of t] Cons by simp
      show ?thesis
      proof (cases "html_safe a")
        case safe: True
        then have "a \<noteq> dquote" "a \<noteq> backslash" "32 \<le> (of_char a :: nat)"
          by (auto simp: html_safe_def)
        then have "parse_chars (a # encode_chars t @ dquote # rest) =
            cons_result [a] (parse_chars (encode_chars t @ dquote # rest))"
          by (rule parse_chars_plain)
        with True safe IH Cons show ?thesis by simp
      next
        case False
        with True have "parse_chars (escape_byte a @ encode_chars t @ dquote # rest) =
            cons_result [a] (parse_chars (encode_chars t @ dquote # rest))"
          by (intro parse_chars_escape_byte)
        with True False IH Cons show ?thesis by simp
      qed
    next
      case False
      then have high: "128 \<le> (of_char a :: nat)" by simp
      let ?n = "utf8_len (a # t)"
      from less.prems Cons False have n0: "?n \<noteq> 0" and v: "valid_utf8 (drop (?n - 1) t)"
        by simp_all
      from utf8_len_high [OF high n0] have n: "?n \<le> Suc (length t)" "2 \<le> ?n"
        and bytes: "\<forall>c\<in>set (take ?n (a # t)). 128 \<le> (of_char c :: nat)"
        by simp_all
      have IH: "parse_chars (encode_chars (drop k t) @ dquote # rest) = Some (drop k t, rest)"
        if "valid_utf8 (drop k t)" for k
        using less.hyps [of "drop k t"] Cons that by simp
      show ?thesis
      proof (cases "take 3 (a # t) = line_separator")
        case ls: True
        then have three: "?n = 3" and split: "a # t = line_separator @ drop 2 t"
          by (cases t; cases "tl t"; auto simp: line_separator_def Let_def continuation_def second_ok_def)+
        from v three have "valid_utf8 (drop 2 t)" by simp
        then have "parse_chars (encode_chars (drop 2 t) @ dquote # rest) = Some (drop 2 t, rest)"
          by (rule IH)
        then have "parse_chars (backslash # ''u2028'' @ encode_chars (drop 2 t) @ dquote # rest) =
            Some (line_separator @ drop 2 t, rest)"
          by (simp only: parse_chars_u2028 cons_result_Some)
        moreover have "encode_chars (a # t) = backslash # ''u2028'' @ encode_chars (drop 2 t)"
          using False n0 ls by simp
        ultimately show ?thesis unfolding Cons using split by simp
      next
        case nls: False
        show ?thesis
        proof (cases "take 3 (a # t) = paragraph_separator")
          case ps: True
          then have three: "?n = 3" and split: "a # t = paragraph_separator @ drop 2 t"
            by (cases t; cases "tl t"; auto simp: paragraph_separator_def Let_def continuation_def second_ok_def)+
          from v three have "valid_utf8 (drop 2 t)" by simp
          then have "parse_chars (encode_chars (drop 2 t) @ dquote # rest) = Some (drop 2 t, rest)"
            by (rule IH)
          then have "parse_chars (backslash # ''u2029'' @ encode_chars (drop 2 t) @ dquote # rest) =
              Some (paragraph_separator @ drop 2 t, rest)"
            by (simp only: parse_chars_u2029 cons_result_Some)
          moreover have "encode_chars (a # t) = backslash # ''u2029'' @ encode_chars (drop 2 t)"
            using False n0 nls ps by simp
          ultimately show ?thesis unfolding Cons using split by simp
        next
          case nps: False
          have split: "a # t = take ?n (a # t) @ drop (?n - 1) t"
            using n by (cases ?n) simp_all
          have "parse_chars (take ?n (a # t) @ encode_chars (drop (?n - 1) t) @ dquote # rest) =
              cons_result (take ?n (a # t))
                (parse_chars (encode_chars (drop (?n - 1) t) @ dquote # rest))"
            using bytes by (rule parse_chars_high)
          also have "\<dots> = Some (take ?n (a # t) @ drop (?n - 1) t, rest)"
            using IH [OF v] by simp
          finally have "parse_chars (take ?n (a # t) @ encode_chars (drop (?n - 1) t) @ dquote # rest) =
              Some (a # t, rest)"
            using split by simp
          moreover have "encode_chars (a # t) =
              take ?n (a # t) @ encode_chars (drop (?n - 1) t)"
            using False n0 nls nps by (simp del: take_Suc_Cons)
          ultimately show ?thesis unfolding Cons by simp
        qed
      qed
    qed
  qed
qed

lemma parse_encode_string:
  "valid_utf8 s \<Longrightarrow> parse_chars (tl (encode_string s) @ rest) = Some (s, rest)"
  by (simp add: encode_string_def parse_encode_chars)

subsection \<open>Numbers survive the wire\<close>







lemma hd_decimal_digit: "is_digit (hd (decimal n))"
  using all_digits_decimal [of n] decimal_not_Nil [of n]
  by (cases "decimal n") (auto simp: all_digits_def)









lemma FormatInt_start:
  "FormatInt i \<noteq> [] \<and> (hd (FormatInt i) = CHR ''-'' \<or> is_digit (hd (FormatInt i)))"
  using hd_decimal_digit decimal_not_Nil by (simp add: FormatInt_def)

subsection \<open>Documents survive the wire\<close>

lemma skip_ws_id: "s = [] \<or> \<not> is_ws (hd s) \<Longrightarrow> skip_ws s = s"
  by (cases s) (auto simp: skip_ws_def)

lemma is_ws_simps [simp]:
  "\<not> is_ws dquote" "\<not> is_ws (CHR ''['')" "\<not> is_ws (CHR '']'')" "\<not> is_ws (CHR ''{'')"
  "\<not> is_ws (CHR ''}'')" "\<not> is_ws (CHR '','')" "\<not> is_ws (CHR '':'')" "\<not> is_ws (CHR ''-'')"
  "\<not> is_ws (CHR ''n'')" "\<not> is_ws (CHR ''t'')" "\<not> is_ws (CHR ''f'')"
  by (simp_all add: is_ws_def dquote_def)



lemma skip_ws_delimited: "delimited rest \<Longrightarrow> skip_ws rest = rest"
  by (rule skip_ws_id) (auto simp: delimited_def)


















lemma delimited_simps [simp]:
  "delimited (CHR '','' # s)" "delimited (CHR '']'' # s)" "delimited (CHR ''}'' # s)" "delimited []"
  by (simp_all add: delimited_def)








subsection \<open>Dates and times survive the wire\<close>







subsection \<open>The encoder writes the document\<close>





subsection \<open>The document is one the parser reads back\<close>



lemma tags_valid_utf8:
  "valid_utf8 ''@date''" "valid_utf8 ''@ts''" "valid_utf8 ''@ref''" "valid_utf8 ''@set''"
  "valid_utf8 ''object''"
  by simp_all


subsection \<open>Classification gives the value back\<close>









subsection \<open>The value read back equals the value written\<close>












section \<open>Properties of the client\<close>

lemma toValue_resource:
  "toValue pf (JObject [(''resource'', j)]) =
     (case toValue pf j of Inl e \<Rightarrow> Inl e | Inr v \<Rightarrow> Inr (ObjectV [(''resource'', v)]))"
  by simp

lemma At_resource: "At (ObjectV [(''resource'', v)]) resource = Inr v"
  by (simp add: At_def field_get_def resource_def)

text \<open>
  C5. When the request went through, the response carries no error, and its body is a
  JSON document with the single member \<^verbatim>\<open>resource\<close>, then \<open>Query\<close> returns exactly the
  value the member's content decodes to.
\<close>

theorem Query_returns_resource:
  assumes "performRequest ff send expr = Inr response"
    and "check response = None"
    and "json_parse (body response) = Some (JObject [(''resource'', j)])"
    and "toValue pf j = Inr v"
  shows "Query ff pf send check expr = Inr v"
  using assms
  by (simp add: Query_def parseResponse_def parseJSON_def toValue_resource At_resource
      GetValue_def del: toValue.simps)

lemma parse_resource_example:
  \<open>json_parse ''{"resource":{"@ref":"classes/spells/42"}}'' =
     Some (JObject [(''resource'', JObject [(''@ref'', JString ''classes/spells/42'')])])\<close>
  by code_simp

text \<open>A server that answers every request with a reference under \<^verbatim>\<open>resource\<close>.\<close>

theorem Query_returns_resource_witness:
  \<open>Query (\<lambda>d. []) (\<lambda>lit. None)
     (\<lambda>request. Inr \<lparr>status = 200, body = ''{"resource":{"@ref":"classes/spells/42"}}''\<rparr>)
     (\<lambda>response. None) (RefV ''classes/spells/42'') = Inr (RefV ''classes/spells/42'')\<close>
proof -
  let ?response = \<open>\<lparr>status = 200, body = ''{"resource":{"@ref":"classes/spells/42"}}''\<rparr>\<close>
  let ?send = "\<lambda>request :: string. Inr ?response :: error + Response"
  let ?check = "\<lambda>response :: Response. None :: error option"
  have 1: "performRequest (\<lambda>d. []) ?send (RefV ''classes/spells/42'') = Inr ?response"
    by (simp add: performRequest_def prepareRequest_def escape_def encode_map_def)
  have 2: "?check ?response = None"
    by simp
  have 3: "json_parse (body ?response) =
      Some (JObject [(''resource'', JObject [(''@ref'', JString ''classes/spells/42'')])])"
    using parse_resource_example by simp
  have 4: "toValue (\<lambda>lit. None) (JObject [(''@ref'', JString ''classes/spells/42'')]) =
      Inr (RefV ''classes/spells/42'')"
    by simp
  show ?thesis
    by (rule Query_returns_resource [OF 1 2 3 4])
qed

end
